theory Spec2Isabelle
  imports Complex_Main
begin

section \<open>Values\<close>

text \<open>
  Python floats are modelled as reals (no rounding error, no overflow). The one
  non-finite float the sources build on purpose, \<^verbatim>\<open>float('inf')\<close>, is an explicit
  constructor, so that the comparisons against it are the ones Python makes.
\<close>

datatype xreal = Fin real | PInf

fun xle :: "xreal \<Rightarrow> xreal \<Rightarrow> bool" where
  "xle (Fin a) (Fin b) = (a \<le> b)"
| "xle (Fin a) PInf = True"
| "xle PInf (Fin b) = False"
| "xle PInf PInf = True"

text \<open>The exceptions the modelled code can raise or pass on.\<close>

datatype error = ZeroDivisionError | TypeError | OtherError

section \<open>The random source\<close>

text \<open>
  The global \<^verbatim>\<open>random\<close> module is a state \<open>'w\<close> that every draw advances. A value of
  type \<open>'w \<Rightarrow> real \<times> 'w\<close> stands for one evaluation of \<^verbatim>\<open>-log(1.0 - random())\<close>, the
  standard exponential variate; \<^verbatim>\<open>random.expovariate(lambd)\<close> divides it by \<open>lambd\<close>
  and raises for \<open>lambd = 0\<close>.
\<close>

definition expovariate :: "('w \<Rightarrow> real \<times> 'w) \<Rightarrow> real \<Rightarrow> 'w \<Rightarrow> error + real \<times> 'w" where
  "expovariate draw lambd w =
     (case draw w of (e, w') \<Rightarrow>
        if lambd = 0 then Inl ZeroDivisionError else Inr (e / lambd, w'))"

section \<open>Packets and the simulation state (pooja.py)\<close>

record packet =
  arrival_time :: real
  start_service :: "real option"
  departure_time :: "real option"

definition Packet :: "real \<Rightarrow> packet" where
  "Packet a = \<lparr>arrival_time = a, start_service = None, departure_time = None\<rparr>"

text \<open>
  The local variables of \<^verbatim>\<open>simulate_queue\<close>. The local \<^verbatim>\<open>departure_time\<close> is the
  field \<open>next_departure\<close> (the packet's attribute keeps the name); \<open>world\<close> is the
  state of the random module and of the sampler.
\<close>

record 'w sim_state =
  t :: real
  next_arrival :: xreal
  queue :: "packet list"
  server_busy :: bool
  next_departure :: xreal
  packets_completed :: "packet list"
  current_serving :: "packet option"
  packet_count :: int
  world :: 'w

type_synonym 'w sampler = "'w \<Rightarrow> error + real \<times> 'w"

subsection \<open>The arrival branch of the loop body\<close>

definition arrival_event ::
  "('w \<Rightarrow> real \<times> 'w) \<Rightarrow> real \<Rightarrow> 'w sampler \<Rightarrow> real \<Rightarrow> 'w sim_state \<Rightarrow> error + 'w sim_state" where
  "arrival_event draw arrival_rate service_time_sampler a s =
     (let pkt = Packet a;
          s0 = s\<lparr>t := a, packet_count := packet_count s + 1\<rparr>
      in case (if \<not> server_busy s0 then
                 (case service_time_sampler (world s0) of
                    Inl e \<Rightarrow> Inl e
                  | Inr (service_time, w') \<Rightarrow>
                      Inr (s0\<lparr>next_departure := Fin (a + service_time),
                               current_serving :=
                                 Some (pkt\<lparr>start_service := Some a,
                                           departure_time := Some (a + service_time)\<rparr>),
                               server_busy := True,
                               world := w'\<rparr>))
               else Inr (s0\<lparr>queue := queue s0 @ [pkt]\<rparr>)) of
           Inl e \<Rightarrow> Inl e
         | Inr s1 \<Rightarrow>
             (case expovariate draw arrival_rate (world s1) of
                Inl e \<Rightarrow> Inl e
              | Inr (x, w2) \<Rightarrow> Inr (s1\<lparr>next_arrival := Fin (a + x), world := w2\<rparr>)))"

subsection \<open>The departure branch of the loop body\<close>

text \<open>\<open>Inr None\<close> is the \<^verbatim>\<open>break\<close>. The horizon is a finite float, so an infinite
  \<open>next_departure\<close> is beyond it.\<close>

definition departure_event ::
  "'w sampler \<Rightarrow> real \<Rightarrow> 'w sim_state \<Rightarrow> error + 'w sim_state option" where
  "departure_event service_time_sampler sim_time s =
     (case next_departure s of
        PInf \<Rightarrow> Inr None
      | Fin d \<Rightarrow>
          if d > sim_time then Inr None
          else
            (let s0 = s\<lparr>t := d,
                        packets_completed :=
                          (case current_serving s of
                             None \<Rightarrow> packets_completed s
                           | Some p \<Rightarrow> packets_completed s @ [p])\<rparr>
             in case queue s0 of
                  next_pkt # rest \<Rightarrow>
                    (case service_time_sampler (world s0) of
                       Inl e \<Rightarrow> Inl e
                     | Inr (service_time, w') \<Rightarrow>
                         Inr (Some (s0\<lparr>queue := rest,
                                       next_departure := Fin (d + service_time),
                                       current_serving :=
                                         Some (next_pkt\<lparr>start_service := Some d,
                                                        departure_time := Some (d + service_time)\<rparr>),
                                       server_busy := True,
                                       world := w'\<rparr>)))
                | [] \<Rightarrow>
                    Inr (Some (s0\<lparr>server_busy := False,
                                  next_departure := PInf,
                                  current_serving := None\<rparr>))))"

subsection \<open>One iteration and the loop\<close>

text \<open>The arrival branch is taken when \<^verbatim>\<open>next_arrival <= departure_time and
  next_arrival <= sim_time\<close>; an infinite \<open>next_arrival\<close> fails the second test.\<close>

definition sq_iteration ::
  "('w \<Rightarrow> real \<times> 'w) \<Rightarrow> real \<Rightarrow> 'w sampler \<Rightarrow> real \<Rightarrow> 'w sim_state \<Rightarrow> error + 'w sim_state option" where
  "sq_iteration draw arrival_rate service_time_sampler sim_time s =
     (case next_arrival s of
        Fin a \<Rightarrow>
          if xle (Fin a) (next_departure s) \<and> a \<le> sim_time
          then (case arrival_event draw arrival_rate service_time_sampler a s of
                  Inl e \<Rightarrow> Inl e
                | Inr s' \<Rightarrow> Inr (Some s'))
          else departure_event service_time_sampler sim_time s
      | PInf \<Rightarrow> departure_event service_time_sampler sim_time s)"

text \<open>The quantity that every iteration decreases: each admitted packet uses up two
  units of the cap and hands one back as a waiting packet or a busy server.\<close>

definition sq_measure :: "int \<Rightarrow> 'w sim_state \<Rightarrow> nat" where
  "sq_measure max_packets s =
     2 * nat (max_packets - packet_count s) + length (queue s)
       + (case next_departure s of Fin d \<Rightarrow> 1 | PInf \<Rightarrow> 0)"

function sq_loop ::
  "('w \<Rightarrow> real \<times> 'w) \<Rightarrow> real \<Rightarrow> 'w sampler \<Rightarrow> real \<Rightarrow> int \<Rightarrow> 'w sim_state \<Rightarrow> error + 'w sim_state" where
  "sq_loop draw arrival_rate service_time_sampler sim_time max_packets s =
     (if t s < sim_time \<and> packet_count s < max_packets then
        (case sq_iteration draw arrival_rate service_time_sampler sim_time s of
           Inl e \<Rightarrow> Inl e
         | Inr None \<Rightarrow> Inr s
         | Inr (Some s') \<Rightarrow> sq_loop draw arrival_rate service_time_sampler sim_time max_packets s')
      else Inr s)"
  by pat_completeness auto
termination
proof (relation "measure (\<lambda>(draw, arrival_rate, service_time_sampler, sim_time, max_packets, s).
                            sq_measure max_packets s)")
  show "wf (measure (\<lambda>(draw :: 'a \<Rightarrow> real \<times> 'a, arrival_rate :: real,
                        service_time_sampler :: 'a sampler, sim_time :: real,
                        max_packets, s). sq_measure max_packets s))"
    by simp
next
  fix draw :: "'a \<Rightarrow> real \<times> 'a" and arrival_rate sim_time :: real
    and service_time_sampler :: "'a sampler" and max_packets :: int
    and s s' :: "'a sim_state" and x
  assume c: "t s < sim_time \<and> packet_count s < max_packets"
    and it: "sq_iteration draw arrival_rate service_time_sampler sim_time s = Inr x"
    and x: "x = Some s'"
  have arr: "sq_measure max_packets s1 < sq_measure max_packets s"
    if "arrival_event draw arrival_rate service_time_sampler a s = Inr s1" for a s1
    using that c
    by (auto simp: arrival_event_def sq_measure_def expovariate_def Let_def
             split: if_splits sum.splits prod.splits xreal.splits)
  have dep: "sq_measure max_packets s' < sq_measure max_packets s"
    if "departure_event service_time_sampler sim_time s = Inr (Some s')"
    using that
    by (auto simp: departure_event_def sq_measure_def Let_def
             split: if_splits sum.splits prod.splits xreal.splits list.splits option.splits)
  have "sq_measure max_packets s' < sq_measure max_packets s"
    using it x arr dep
    by (auto simp: sq_iteration_def split: xreal.splits if_splits sum.splits)
  then show "((draw, arrival_rate, service_time_sampler, sim_time, max_packets, s'),
              (draw, arrival_rate, service_time_sampler, sim_time, max_packets, s))
             \<in> measure (\<lambda>(draw, arrival_rate, service_time_sampler, sim_time, max_packets, s).
                          sq_measure max_packets s)"
    by simp
qed

declare sq_loop.simps [simp del]

subsection \<open>The whole call\<close>

definition sq_init :: "xreal \<Rightarrow> 'w \<Rightarrow> 'w sim_state" where
  "sq_init na w =
     \<lparr>t = 0, next_arrival = na, queue = [], server_busy = False, next_departure = PInf,
      packets_completed = [], current_serving = None, packet_count = 0, world = w\<rparr>"

text \<open>The state in which the loop ends.\<close>

definition sq_run ::
  "('w \<Rightarrow> real \<times> 'w) \<Rightarrow> real \<Rightarrow> 'w sampler \<Rightarrow> real \<Rightarrow> int \<Rightarrow> 'w \<Rightarrow> error + 'w sim_state" where
  "sq_run draw arrival_rate service_time_sampler sim_time max_packets w =
     (case (if arrival_rate > 0
            then (case expovariate draw arrival_rate w of
                    Inl e \<Rightarrow> Inl e
                  | Inr (x, w') \<Rightarrow> Inr (Fin x, w'))
            else Inr (PInf, w)) of
        Inl e \<Rightarrow> Inl e
      | Inr (na, w1) \<Rightarrow>
          sq_loop draw arrival_rate service_time_sampler sim_time max_packets (sq_init na w1))"

text \<open>
  The result loop. \<^verbatim>\<open>p.departure_time - p.arrival_time\<close> raises TypeError on an unset
  departure time; \<^verbatim>\<open>p.start_service - p.arrival_time if p.start_service else 0.0\<close> tests
  the truth value of \<open>start_service\<close>, which is false for \<^verbatim>\<open>None\<close> and for \<open>0.0\<close>.
\<close>

fun collect_results :: "packet list \<Rightarrow> error + real list \<times> real list" where
  "collect_results [] = Inr ([], [])"
| "collect_results (p # ps) =
     (case departure_time p of
        None \<Rightarrow> Inl TypeError
      | Some d \<Rightarrow>
          (let total_delay = d - arrival_time p;
               q_delay = (case start_service p of
                            None \<Rightarrow> 0
                          | Some st \<Rightarrow> if st \<noteq> 0 then st - arrival_time p else 0)
           in case collect_results ps of
                Inl e \<Rightarrow> Inl e
              | Inr (delays, queueing_times) \<Rightarrow>
                  Inr (total_delay # delays, q_delay # queueing_times)))"

definition simulate_queue ::
  "('w \<Rightarrow> real \<times> 'w) \<Rightarrow> real \<Rightarrow> 'w sampler \<Rightarrow> real \<Rightarrow> int \<Rightarrow> 'w
     \<Rightarrow> error + (real list \<times> real list) \<times> 'w" where
  "simulate_queue draw arrival_rate service_time_sampler sim_time max_packets w =
     (case sq_run draw arrival_rate service_time_sampler sim_time max_packets w of
        Inl e \<Rightarrow> Inl e
      | Inr s \<Rightarrow>
          (case collect_results (packets_completed s) of
             Inl e \<Rightarrow> Inl e
           | Inr r \<Rightarrow> Inr (r, world s)))"

text \<open>The default of the parameter: \<^verbatim>\<open>max_packets=int(2e6)\<close>.\<close>

definition default_max_packets :: int where
  "default_max_packets = 2000000"

text \<open>The loop with a step budget: \<open>None\<close> when the budget runs out before the loop ends.\<close>

fun sq_loop_fuel ::
  "nat \<Rightarrow> ('w \<Rightarrow> real \<times> 'w) \<Rightarrow> real \<Rightarrow> 'w sampler \<Rightarrow> real \<Rightarrow> int \<Rightarrow> 'w sim_state
     \<Rightarrow> (error + 'w sim_state) option" where
  "sq_loop_fuel 0 draw arrival_rate service_time_sampler sim_time max_packets s =
     (if t s < sim_time \<and> packet_count s < max_packets then None else Some (Inr s))"
| "sq_loop_fuel (Suc n) draw arrival_rate service_time_sampler sim_time max_packets s =
     (if t s < sim_time \<and> packet_count s < max_packets then
        (case sq_iteration draw arrival_rate service_time_sampler sim_time s of
           Inl e \<Rightarrow> Some (Inl e)
         | Inr None \<Rightarrow> Some (Inr s)
         | Inr (Some s') \<Rightarrow>
             sq_loop_fuel n draw arrival_rate service_time_sampler sim_time max_packets s')
      else Some (Inr s))"

section \<open>The experiment runner (pooja.py)\<close>

datatype cell = Mean real | NaN

record row =
  rho :: real
  arrival_rate_pkts_s :: real
  service_rate_pkts_s :: real
  tx_delay_s :: real
  sim_total_mm1_s :: cell
  sim_queue_mm1_s :: real
  sim_total_md1_s :: cell
  sim_queue_md1_s :: real
  analytic_mm1_total_s :: xreal
  analytic_mm1_queue_s :: xreal

text \<open>\<^verbatim>\<open>statistics.mean\<close>, called on non-empty lists only.\<close>

definition mean :: "real list \<Rightarrow> real" where
  "mean xs = sum_list xs / real (length xs)"

text \<open>\<^verbatim>\<open>lambda: random.expovariate(1.0 / service_time_mean)\<close> and
  \<^verbatim>\<open>lambda: service_time_mean\<close>.\<close>

definition mm1_sampler :: "('w \<Rightarrow> real \<times> 'w) \<Rightarrow> real \<Rightarrow> 'w sampler" where
  "mm1_sampler draw service_time_mean w =
     (if service_time_mean = 0 then Inl ZeroDivisionError
      else expovariate draw (1 / service_time_mean) w)"

definition md1_sampler :: "real \<Rightarrow> 'w sampler" where
  "md1_sampler service_time_mean w = Inr (service_time_mean, w)"

text \<open>The body of the loop over \<open>rho_list\<close>: one row.\<close>

definition experiment_row ::
  "('w \<Rightarrow> real \<times> 'w) \<Rightarrow> real \<Rightarrow> real \<Rightarrow> real \<Rightarrow> real \<Rightarrow> 'w \<Rightarrow> error + row \<times> 'w" where
  "experiment_row draw service_rate_packets service_time_mean sim_time rh w =
     (let arrival_rate = rh * service_rate_packets in
      case simulate_queue draw arrival_rate (mm1_sampler draw service_time_mean)
             sim_time default_max_packets w of
        Inl e \<Rightarrow> Inl e
      | Inr ((delays_mm, q_mm), w1) \<Rightarrow>
      (case simulate_queue draw arrival_rate (md1_sampler service_time_mean)
              sim_time default_max_packets w1 of
         Inl e \<Rightarrow> Inl e
       | Inr ((delays_md, q_md), w2) \<Rightarrow>
           (let mean_total_mm = (if delays_mm \<noteq> [] then Mean (mean delays_mm) else NaN);
                mean_queue_mm = (if q_mm \<noteq> [] then mean q_mm else 0);
                mean_total_md = (if delays_md \<noteq> [] then Mean (mean delays_md) else NaN);
                mean_queue_md = (if q_md \<noteq> [] then mean q_md else 0);
                mu = service_rate_packets;
                lam = arrival_rate;
                analytic = (if lam < mu
                            then (Fin (1 / (mu - lam)), Fin (rh / (mu - lam)))
                            else (PInf, PInf))
            in Inr (\<lparr>rho = rh,
                      arrival_rate_pkts_s = arrival_rate,
                      service_rate_pkts_s = service_rate_packets,
                      tx_delay_s = service_time_mean,
                      sim_total_mm1_s = mean_total_mm,
                      sim_queue_mm1_s = mean_queue_mm,
                      sim_total_md1_s = mean_total_md,
                      sim_queue_md1_s = mean_queue_md,
                      analytic_mm1_total_s = fst analytic,
                      analytic_mm1_queue_s = snd analytic\<rparr>, w2))))"

fun run_rows ::
  "('w \<Rightarrow> real \<times> 'w) \<Rightarrow> real \<Rightarrow> real \<Rightarrow> real \<Rightarrow> real list \<Rightarrow> 'w \<Rightarrow> error + row list \<times> 'w" where
  "run_rows draw service_rate_packets service_time_mean sim_time [] w = Inr ([], w)"
| "run_rows draw service_rate_packets service_time_mean sim_time (rh # rest) w =
     (case experiment_row draw service_rate_packets service_time_mean sim_time rh w of
        Inl e \<Rightarrow> Inl e
      | Inr (r, w1) \<Rightarrow>
          (case run_rows draw service_rate_packets service_time_mean sim_time rest w1 of
             Inl e \<Rightarrow> Inl e
           | Inr (rows, w2) \<Rightarrow> Inr (r # rows, w2)))"

text \<open>The default sweep: \<^verbatim>\<open>[i/20 for i in range(1, 20)]\<close>.\<close>

definition default_rho_list :: "real list" where
  "default_rho_list = map (\<lambda>i. real i / 20) [1..<20]"

text \<open>Python's \<^verbatim>\<open>/\<close> raises ZeroDivisionError on a zero divisor, for ints and floats
  alike; the two divisions before the loop are the only places where the runner can fail.\<close>

definition run_experiments ::
  "('w \<Rightarrow> real \<times> 'w) \<Rightarrow> real \<Rightarrow> real \<Rightarrow> real list option \<Rightarrow> real \<Rightarrow> 'w
     \<Rightarrow> error + row list \<times> 'w" where
  "run_experiments draw packet_size_bytes bandwidth_bps rho_list sim_time w =
     (let rhos = (case rho_list of None \<Rightarrow> default_rho_list | Some l \<Rightarrow> l);
          L_bits = packet_size_bytes * 8
      in if L_bits = 0 then Inl ZeroDivisionError
         else
           (let service_rate_packets = bandwidth_bps / L_bits
            in if service_rate_packets = 0 then Inl ZeroDivisionError
               else
                 (let service_time_mean = 1 / service_rate_packets
                  in run_rows draw service_rate_packets service_time_mean sim_time rhos w)))"

section \<open>The closed-form delays (delay_analyzer.py)\<close>

text \<open>
  Here the rounding is what the functions are about, so the floats are not idealised:
  \<open>fl x\<close> is the double nearest to the real \<open>x\<close> (53 significant bits, a tie to the even
  significand; the exponent range is taken as unbounded, so no overflow or underflow).
  Python's \<^verbatim>\<open>/\<close> and \<^verbatim>\<open>-\<close> return \<open>fl\<close> of the exact result. \<^verbatim>\<open>round(x, 6)\<close> on a
  double takes the multiple of \<open>10\<^sup>-\<^sup>6\<close> nearest to the exact value of \<open>x\<close> (a tie to the
  even multiple) and returns the double nearest to it. The arguments of the three
  functions are the exact values of the numbers passed.
\<close>

definition round_half_even :: "real \<Rightarrow> int" where
  "round_half_even y =
     (let f = \<lfloor>y\<rfloor>; d = y - of_int f
      in if d < 1 / 2 then f else if d > 1 / 2 then f + 1 else if even f then f else f + 1)"

definition fl :: "real \<Rightarrow> real" where
  "fl x =
     (if x = 0 then 0
      else (let q = 2 powr of_int (\<lfloor>log 2 \<bar>x\<bar>\<rfloor> - 52)
            in of_int (round_half_even (x / q)) * q))"

definition round6 :: "real \<Rightarrow> real" where
  "round6 x = fl (of_int (round_half_even (x * 1000000)) / 1000000)"


definition propagation_delay :: "real \<Rightarrow> real \<Rightarrow> xreal" where
  "propagation_delay distance_km propagation_speed_kmps =
     (if propagation_speed_kmps = 0 then PInf
      else Fin (round6 (fl (distance_km / propagation_speed_kmps))))"


section \<open>Scripted runs\<close>

text \<open>A world for concrete runs: the standard exponential variates still to be drawn
  (their absolute values are used, since \<^verbatim>\<open>-log(1.0 - random())\<close> is never negative) and
  the service times still to be sampled. An exhausted list of variates yields 100; an
  exhausted sampler raises.\<close>

type_synonym script = "real list \<times> real list"

definition script_draw :: "script \<Rightarrow> real \<times> script" where
  "script_draw w = (case fst w of [] \<Rightarrow> (100, w) | e # es \<Rightarrow> (\<bar>e\<bar>, (es, snd w)))"

definition script_sampler :: "script sampler" where
  "script_sampler w = (case snd w of [] \<Rightarrow> Inl OtherError | x # xs \<Rightarrow> Inr (x, (fst w, xs)))"

section \<open>Assumptions on the environment and invariants of the loop\<close>

text \<open>What \<^verbatim>\<open>-log(1.0 - random())\<close> guarantees, what the contract of the simulator asks of
  a sampler (values that are never negative), and a sampler that never raises.\<close>

definition nonneg_draw :: "('w \<Rightarrow> real \<times> 'w) \<Rightarrow> bool" where
  "nonneg_draw draw \<longleftrightarrow> (\<forall>w. 0 \<le> fst (draw w))"

definition nonneg_sampler :: "'w sampler \<Rightarrow> bool" where
  "nonneg_sampler sampler \<longleftrightarrow> (\<forall>w v w'. sampler w = Inr (v, w') \<longrightarrow> 0 \<le> v)"

definition total_sampler :: "'w sampler \<Rightarrow> bool" where
  "total_sampler sampler \<longleftrightarrow> (\<forall>w. \<exists>v w'. sampler w = Inr (v, w'))"

text \<open>The invariants. \<open>sq_inv_struct\<close> ties \<open>server_busy\<close>, \<open>current_serving\<close> and
  \<open>next_departure\<close> together and records that every completed packet has its two
  timestamps set; \<open>sq_inv_order\<close> is the order of a packet's three timestamps;
  \<open>sq_inv_fifo\<close> is the order of the packets among themselves.\<close>

definition sq_inv_struct :: "real \<Rightarrow> real \<Rightarrow> 'w sim_state \<Rightarrow> bool" where
  "sq_inv_struct arrival_rate sim_time s \<longleftrightarrow>
     (\<forall>a. next_arrival s = Fin a \<longrightarrow> 0 < arrival_rate) \<and>
     (case current_serving s of
        None \<Rightarrow> \<not> server_busy s \<and> next_departure s = PInf \<and> queue s = []
      | Some c \<Rightarrow>
          server_busy s \<and> start_service c \<noteq> None \<and>
          (\<exists>d. departure_time c = Some d \<and> next_departure s = Fin d)) \<and>
     (\<forall>p \<in> set (packets_completed s).
        start_service p \<noteq> None \<and> (\<exists>d. departure_time p = Some d \<and> d \<le> sim_time))"

definition packet_ordered :: "packet \<Rightarrow> bool" where
  "packet_ordered p =
     (case start_service p of
        None \<Rightarrow> False
      | Some st \<Rightarrow>
          (case departure_time p of
             None \<Rightarrow> False
           | Some d \<Rightarrow> arrival_time p \<le> st \<and> st \<le> d))"

definition sq_inv_order :: "'w sim_state \<Rightarrow> bool" where
  "sq_inv_order s \<longleftrightarrow>
     (\<forall>p \<in> set (queue s). xle (Fin (arrival_time p)) (next_departure s)) \<and>
     (\<forall>p. current_serving s = Some p \<longrightarrow> packet_ordered p) \<and>
     (\<forall>p \<in> set (packets_completed s). packet_ordered p)"

definition the_departure :: "packet \<Rightarrow> real" where
  "the_departure p = (case departure_time p of None \<Rightarrow> 0 | Some d \<Rightarrow> d)"

definition admitted :: "'w sim_state \<Rightarrow> packet list" where
  "admitted s =
     packets_completed s @ (case current_serving s of None \<Rightarrow> [] | Some p \<Rightarrow> [p]) @ queue s"

definition sq_inv_fifo :: "'w sim_state \<Rightarrow> bool" where
  "sq_inv_fifo s \<longleftrightarrow>
     sorted (map arrival_time (admitted s)) \<and>
     (\<forall>p \<in> set (admitted s). 0 \<le> arrival_time p \<and> arrival_time p \<le> t s) \<and>
     0 \<le> t s \<and>
     xle (Fin (t s)) (next_arrival s) \<and>
     sorted (map the_departure (packets_completed s)) \<and>
     (\<forall>p \<in> set (packets_completed s). the_departure p \<le> t s) \<and>
     (\<forall>d. next_departure s = Fin d \<longrightarrow> t s \<le> d)"

text \<open>What a row must be for the utilization it was computed from.\<close>

definition row_for :: "real \<Rightarrow> row \<Rightarrow> real \<Rightarrow> bool" where
  "row_for mu r rh \<longleftrightarrow>
     rho r = rh \<and> arrival_rate_pkts_s r = rh * mu \<and> service_rate_pkts_s r = mu \<and>
     analytic_mm1_total_s r = (if rh * mu < mu then Fin (1 / (mu - rh * mu)) else PInf) \<and>
     analytic_mm1_queue_s r = (if rh * mu < mu then Fin (rh / (mu - rh * mu)) else PInf)"

section \<open>The simulator over any horizon\<close>

text \<open>
  The model above keeps every time stamp real, which fits every finite horizon: the
  clock only moves to events at or before \<open>sim_time\<close>. With \<^verbatim>\<open>sim_time = float('inf')\<close>
  the clock itself can become infinite, so \<^verbatim>\<open>simulate_queue\<close> is modelled once more,
  statement by statement, with time stamps that may be \<^verbatim>\<open>float('inf')\<close>. The names carry
  an \<open>x\<close>. On a finite horizon the two models agree (\<open>simulate_queue_embed\<close>).
\<close>

fun xadd :: "xreal \<Rightarrow> real \<Rightarrow> xreal" where
  "xadd (Fin a) x = Fin (a + x)"
| "xadd PInf x = PInf"

definition xlt :: "xreal \<Rightarrow> xreal \<Rightarrow> bool" where
  "xlt a b \<longleftrightarrow> \<not> xle b a"

text \<open>The difference of two time stamps, as float subtraction gives it.\<close>

datatype pyfloat = Float real | FloatInf | FloatNegInf | FloatNaN

fun xsub :: "xreal \<Rightarrow> xreal \<Rightarrow> pyfloat" where
  "xsub (Fin a) (Fin b) = Float (a - b)"
| "xsub PInf (Fin b) = FloatInf"
| "xsub (Fin a) PInf = FloatNegInf"
| "xsub PInf PInf = FloatNaN"

record xpacket =
  x_arrival_time :: xreal
  x_start_service :: "xreal option"
  x_departure_time :: "xreal option"

definition XPacket :: "xreal \<Rightarrow> xpacket" where
  "XPacket a = \<lparr>x_arrival_time = a, x_start_service = None, x_departure_time = None\<rparr>"

record 'w xsim_state =
  x_t :: xreal
  x_next_arrival :: xreal
  x_queue :: "xpacket list"
  x_server_busy :: bool
  x_next_departure :: xreal
  x_packets_completed :: "xpacket list"
  x_current_serving :: "xpacket option"
  x_packet_count :: int
  x_world :: 'w

definition arrival_event_x ::
  "('w \<Rightarrow> real \<times> 'w) \<Rightarrow> real \<Rightarrow> 'w sampler \<Rightarrow> 'w xsim_state \<Rightarrow> error + 'w xsim_state" where
  "arrival_event_x draw arrival_rate service_time_sampler s =
     (let s0 = s\<lparr>x_t := x_next_arrival s\<rparr>;
          pkt = XPacket (x_t s0);
          s1 = s0\<lparr>x_packet_count := x_packet_count s0 + 1\<rparr>
      in case (if \<not> x_server_busy s1 then
                 (case service_time_sampler (x_world s1) of
                    Inl e \<Rightarrow> Inl e
                  | Inr (service_time, w') \<Rightarrow>
                      Inr (s1\<lparr>x_next_departure := xadd (x_t s1) service_time,
                               x_current_serving :=
                                 Some (pkt\<lparr>x_start_service := Some (x_t s1),
                                           x_departure_time := Some (xadd (x_t s1) service_time)\<rparr>),
                               x_server_busy := True,
                               x_world := w'\<rparr>))
               else Inr (s1\<lparr>x_queue := x_queue s1 @ [pkt]\<rparr>)) of
           Inl e \<Rightarrow> Inl e
         | Inr s2 \<Rightarrow>
             (case expovariate draw arrival_rate (x_world s2) of
                Inl e \<Rightarrow> Inl e
              | Inr (x, w2) \<Rightarrow> Inr (s2\<lparr>x_next_arrival := xadd (x_t s2) x, x_world := w2\<rparr>)))"

definition departure_event_x ::
  "'w sampler \<Rightarrow> xreal \<Rightarrow> 'w xsim_state \<Rightarrow> error + 'w xsim_state option" where
  "departure_event_x service_time_sampler sim_time s =
     (if xlt sim_time (x_next_departure s) then Inr None
      else
        (let s0 = s\<lparr>x_t := x_next_departure s,
                    x_packets_completed :=
                      (case x_current_serving s of
                         None \<Rightarrow> x_packets_completed s
                       | Some p \<Rightarrow> x_packets_completed s @ [p])\<rparr>
         in case x_queue s0 of
              next_pkt # rest \<Rightarrow>
                (case service_time_sampler (x_world s0) of
                   Inl e \<Rightarrow> Inl e
                 | Inr (service_time, w') \<Rightarrow>
                     Inr (Some (s0\<lparr>x_queue := rest,
                                   x_next_departure := xadd (x_t s0) service_time,
                                   x_current_serving :=
                                     Some (next_pkt\<lparr>x_start_service := Some (x_t s0),
                                                    x_departure_time :=
                                                      Some (xadd (x_t s0) service_time)\<rparr>),
                                   x_server_busy := True,
                                   x_world := w'\<rparr>)))
            | [] \<Rightarrow>
                Inr (Some (s0\<lparr>x_server_busy := False,
                              x_next_departure := PInf,
                              x_current_serving := None\<rparr>))))"

definition sq_iteration_x ::
  "('w \<Rightarrow> real \<times> 'w) \<Rightarrow> real \<Rightarrow> 'w sampler \<Rightarrow> xreal \<Rightarrow> 'w xsim_state
     \<Rightarrow> error + 'w xsim_state option" where
  "sq_iteration_x draw arrival_rate service_time_sampler sim_time s =
     (if xle (x_next_arrival s) (x_next_departure s) \<and> xle (x_next_arrival s) sim_time
      then (case arrival_event_x draw arrival_rate service_time_sampler s of
              Inl e \<Rightarrow> Inl e
            | Inr s' \<Rightarrow> Inr (Some s'))
      else departure_event_x service_time_sampler sim_time s)"

definition sq_measure_x :: "int \<Rightarrow> 'w xsim_state \<Rightarrow> nat" where
  "sq_measure_x max_packets s =
     2 * nat (max_packets - x_packet_count s) + length (x_queue s)
       + (case x_next_departure s of Fin d \<Rightarrow> 1 | PInf \<Rightarrow> 0)"

function sq_loop_x ::
  "('w \<Rightarrow> real \<times> 'w) \<Rightarrow> real \<Rightarrow> 'w sampler \<Rightarrow> xreal \<Rightarrow> int \<Rightarrow> 'w xsim_state
     \<Rightarrow> error + 'w xsim_state" where
  "sq_loop_x draw arrival_rate service_time_sampler sim_time max_packets s =
     (if xlt (x_t s) sim_time \<and> x_packet_count s < max_packets then
        (case sq_iteration_x draw arrival_rate service_time_sampler sim_time s of
           Inl e \<Rightarrow> Inl e
         | Inr None \<Rightarrow> Inr s
         | Inr (Some s') \<Rightarrow>
             sq_loop_x draw arrival_rate service_time_sampler sim_time max_packets s')
      else Inr s)"
  by pat_completeness auto
termination
proof (relation "measure (\<lambda>(draw, arrival_rate, service_time_sampler, sim_time, max_packets, s).
                            sq_measure_x max_packets s)")
  show "wf (measure (\<lambda>(draw :: 'a \<Rightarrow> real \<times> 'a, arrival_rate :: real,
                        service_time_sampler :: 'a sampler, sim_time :: xreal,
                        max_packets, s). sq_measure_x max_packets s))"
    by simp
next
  fix draw :: "'a \<Rightarrow> real \<times> 'a" and arrival_rate :: real and sim_time :: xreal
    and service_time_sampler :: "'a sampler" and max_packets :: int
    and s s' :: "'a xsim_state" and x
  assume c: "xlt (x_t s) sim_time \<and> x_packet_count s < max_packets"
    and it: "sq_iteration_x draw arrival_rate service_time_sampler sim_time s = Inr x"
    and x: "x = Some s'"
  have arr: "sq_measure_x max_packets s1 < sq_measure_x max_packets s"
    if "arrival_event_x draw arrival_rate service_time_sampler s = Inr s1" for s1
    using that c
    by (auto simp: arrival_event_x_def sq_measure_x_def expovariate_def Let_def
             split: if_splits sum.splits prod.splits xreal.splits)
  have dep: "sq_measure_x max_packets s' < sq_measure_x max_packets s"
    if "departure_event_x service_time_sampler sim_time s = Inr (Some s')"
      and "\<not> (xle (x_next_arrival s) (x_next_departure s) \<and> xle (x_next_arrival s) sim_time)"
    using that
    by (cases "x_next_departure s"; cases sim_time; cases "x_next_arrival s")
       (auto simp: departure_event_x_def sq_measure_x_def xlt_def Let_def
             split: if_splits sum.splits prod.splits xreal.splits list.splits)
  have "sq_measure_x max_packets s' < sq_measure_x max_packets s"
    using it x arr dep
    by (auto simp: sq_iteration_x_def split: if_splits sum.splits)
  then show "((draw, arrival_rate, service_time_sampler, sim_time, max_packets, s'),
              (draw, arrival_rate, service_time_sampler, sim_time, max_packets, s))
             \<in> measure (\<lambda>(draw, arrival_rate, service_time_sampler, sim_time, max_packets, s).
                          sq_measure_x max_packets s)"
    by simp
qed

declare sq_loop_x.simps [simp del]

definition sq_init_x :: "xreal \<Rightarrow> 'w \<Rightarrow> 'w xsim_state" where
  "sq_init_x na w =
     \<lparr>x_t = Fin 0, x_next_arrival = na, x_queue = [], x_server_busy = False,
      x_next_departure = PInf, x_packets_completed = [], x_current_serving = None,
      x_packet_count = 0, x_world = w\<rparr>"

definition sq_run_x ::
  "('w \<Rightarrow> real \<times> 'w) \<Rightarrow> real \<Rightarrow> 'w sampler \<Rightarrow> xreal \<Rightarrow> int \<Rightarrow> 'w \<Rightarrow> error + 'w xsim_state" where
  "sq_run_x draw arrival_rate service_time_sampler sim_time max_packets w =
     (case (if arrival_rate > 0
            then (case expovariate draw arrival_rate w of
                    Inl e \<Rightarrow> Inl e
                  | Inr (x, w') \<Rightarrow> Inr (Fin x, w'))
            else Inr (PInf, w)) of
        Inl e \<Rightarrow> Inl e
      | Inr (na, w1) \<Rightarrow>
          sq_loop_x draw arrival_rate service_time_sampler sim_time max_packets (sq_init_x na w1))"

fun collect_results_x :: "xpacket list \<Rightarrow> error + pyfloat list \<times> pyfloat list" where
  "collect_results_x [] = Inr ([], [])"
| "collect_results_x (p # ps) =
     (case x_departure_time p of
        None \<Rightarrow> Inl TypeError
      | Some d \<Rightarrow>
          (let total_delay = xsub d (x_arrival_time p);
               q_delay = (case x_start_service p of
                            None \<Rightarrow> Float 0
                          | Some st \<Rightarrow>
                              if st \<noteq> Fin 0 then xsub st (x_arrival_time p) else Float 0)
           in case collect_results_x ps of
                Inl e \<Rightarrow> Inl e
              | Inr (delays, queueing_times) \<Rightarrow>
                  Inr (total_delay # delays, q_delay # queueing_times)))"

definition simulate_queue_x ::
  "('w \<Rightarrow> real \<times> 'w) \<Rightarrow> real \<Rightarrow> 'w sampler \<Rightarrow> xreal \<Rightarrow> int \<Rightarrow> 'w
     \<Rightarrow> error + (pyfloat list \<times> pyfloat list) \<times> 'w" where
  "simulate_queue_x draw arrival_rate service_time_sampler sim_time max_packets w =
     (case sq_run_x draw arrival_rate service_time_sampler sim_time max_packets w of
        Inl e \<Rightarrow> Inl e
      | Inr s \<Rightarrow>
          (case collect_results_x (x_packets_completed s) of
             Inl e \<Rightarrow> Inl e
           | Inr r \<Rightarrow> Inr (r, x_world s)))"

text \<open>A state of the finite-horizon model, read as a state of this one.\<close>

definition embed_packet :: "packet \<Rightarrow> xpacket" where
  "embed_packet p =
     \<lparr>x_arrival_time = Fin (arrival_time p),
      x_start_service = map_option Fin (start_service p),
      x_departure_time = map_option Fin (departure_time p)\<rparr>"

definition embed_state :: "'w sim_state \<Rightarrow> 'w xsim_state" where
  "embed_state s =
     \<lparr>x_t = Fin (t s), x_next_arrival = next_arrival s,
      x_queue = map embed_packet (queue s), x_server_busy = server_busy s,
      x_next_departure = next_departure s,
      x_packets_completed = map embed_packet (packets_completed s),
      x_current_serving = map_option embed_packet (current_serving s),
      x_packet_count = packet_count s, x_world = world s\<rparr>"

section \<open>The loop preserves its invariants\<close>

lemma sq_loop_invariant:
  assumes "sq_loop draw arrival_rate sampler sim_time max_packets s = Inr s'"
    and "I s"
    and step: "\<And>u u'. I u \<Longrightarrow> sq_iteration draw arrival_rate sampler sim_time u = Inr (Some u') \<Longrightarrow> I u'"
  shows "I s'"
  using assms
proof (induction draw arrival_rate sampler sim_time max_packets s rule: sq_loop.induct)
  case (1 draw arrival_rate sampler sim_time max_packets s)
  show ?case
  proof (cases "t s < sim_time \<and> packet_count s < max_packets")
    case False
    with "1.prems" show ?thesis by (simp add: sq_loop.simps)
  next
    case True
    show ?thesis
    proof (cases "sq_iteration draw arrival_rate sampler sim_time s")
      case (Inl e)
      with True "1.prems" show ?thesis by (simp add: sq_loop.simps)
    next
      case (Inr x)
      show ?thesis
      proof (cases x)
        case None
        with Inr True "1.prems" show ?thesis by (simp add: sq_loop.simps)
      next
        case (Some u)
        have "I u" using "1.prems"(3) [OF "1.prems"(2)] Inr Some by simp
        moreover have "sq_loop draw arrival_rate sampler sim_time max_packets u = Inr s'"
          using "1.prems"(1) True Inr Some by (simp add: sq_loop.simps)
        ultimately show ?thesis using "1.IH" [OF True Inr Some] "1.prems"(3) by blast
      qed
    qed
  qed
qed

lemma arrival_event_struct:
  assumes "sq_inv_struct arrival_rate sim_time s"
    and "arrival_event draw arrival_rate sampler a s = Inr s'"
    and "next_arrival s = Fin a"
  shows "sq_inv_struct arrival_rate sim_time s'"
  using assms
  by (auto simp: sq_inv_struct_def arrival_event_def expovariate_def Packet_def Let_def
           split: if_splits sum.splits prod.splits option.splits)

lemma departure_event_struct:
  assumes "sq_inv_struct arrival_rate sim_time s"
    and "departure_event sampler sim_time s = Inr (Some s')"
  shows "sq_inv_struct arrival_rate sim_time s'"
  using assms
  by (auto simp: sq_inv_struct_def departure_event_def Let_def
           split: if_splits sum.splits prod.splits xreal.splits list.splits option.splits)

lemma sq_iteration_struct:
  assumes "sq_inv_struct arrival_rate sim_time s"
    and "sq_iteration draw arrival_rate sampler sim_time s = Inr (Some s')"
  shows "sq_inv_struct arrival_rate sim_time s'"
  using assms arrival_event_struct [OF assms(1)] departure_event_struct [OF assms(1)]
  by (auto simp: sq_iteration_def split: xreal.splits if_splits sum.splits)

lemma sq_inv_struct_serving:
  assumes "sq_inv_struct arrival_rate sim_time s" and "next_departure s = Fin d"
  shows "\<exists>c. current_serving s = Some c \<and> departure_time c = Some d"
  using assms by (cases "current_serving s") (auto simp: sq_inv_struct_def)

lemma sq_inv_struct_idle:
  assumes "sq_inv_struct arrival_rate sim_time s" and "\<not> server_busy s"
  shows "queue s = []" and "current_serving s = None" and "next_departure s = PInf"
  using assms by (cases "current_serving s"; simp add: sq_inv_struct_def)+

lemma sq_inv_struct_rate:
  assumes "sq_inv_struct arrival_rate sim_time s" and "next_arrival s = Fin a"
  shows "0 < arrival_rate"
  using assms by (simp add: sq_inv_struct_def)

lemma nonneg_samplerD: "nonneg_sampler sampler \<Longrightarrow> sampler w = Inr (v, w') \<Longrightarrow> 0 \<le> v"
  by (auto simp: nonneg_sampler_def)

lemma nonneg_drawD: "nonneg_draw draw \<Longrightarrow> draw w = (e, w') \<Longrightarrow> 0 \<le> e"
  by (auto simp: nonneg_draw_def dest: spec [of _ w])

lemma arrival_event_cases:
  assumes "arrival_event draw arrival_rate sampler a s = Inr s'"
  obtains (idle) v w1 e w2 where
      "\<not> server_busy s" "sampler (world s) = Inr (v, w1)" "draw w1 = (e, w2)" "arrival_rate \<noteq> 0"
      "s' = s\<lparr>t := a, packet_count := packet_count s + 1,
              next_departure := Fin (a + v),
              current_serving :=
                Some \<lparr>arrival_time = a, start_service = Some a, departure_time = Some (a + v)\<rparr>,
              server_busy := True,
              next_arrival := Fin (a + e / arrival_rate), world := w2\<rparr>"
  | (busy) e w2 where
      "server_busy s" "draw (world s) = (e, w2)" "arrival_rate \<noteq> 0"
      "s' = s\<lparr>t := a, packet_count := packet_count s + 1,
              queue := queue s @ [\<lparr>arrival_time = a, start_service = None, departure_time = None\<rparr>],
              next_arrival := Fin (a + e / arrival_rate), world := w2\<rparr>"
  using assms
  by (auto simp: arrival_event_def expovariate_def Packet_def Let_def
           split: if_splits sum.splits prod.splits)

lemma departure_event_cases:
  assumes "departure_event sampler sim_time s = Inr (Some s')"
  obtains (serve_next) d p rest v w1 where
      "next_departure s = Fin d" "d \<le> sim_time" "queue s = p # rest"
      "sampler (world s) = Inr (v, w1)"
      "s' = s\<lparr>t := d,
              packets_completed :=
                (case current_serving s of
                   None \<Rightarrow> packets_completed s
                 | Some c \<Rightarrow> packets_completed s @ [c]),
              queue := rest,
              next_departure := Fin (d + v),
              current_serving :=
                Some (p\<lparr>start_service := Some d, departure_time := Some (d + v)\<rparr>),
              server_busy := True,
              world := w1\<rparr>"
  | (go_idle) d where
      "next_departure s = Fin d" "d \<le> sim_time" "queue s = []"
      "s' = s\<lparr>t := d,
              packets_completed :=
                (case current_serving s of
                   None \<Rightarrow> packets_completed s
                 | Some c \<Rightarrow> packets_completed s @ [c]),
              server_busy := False,
              next_departure := PInf,
              current_serving := None\<rparr>"
  using assms
  by (auto simp: departure_event_def Let_def
           split: if_splits sum.splits prod.splits xreal.splits list.splits)

lemma sq_iteration_cases:
  assumes "sq_iteration draw arrival_rate sampler sim_time s = Inr (Some s')"
  obtains (arrival) a where
      "next_arrival s = Fin a" "xle (Fin a) (next_departure s)" "a \<le> sim_time"
      "arrival_event draw arrival_rate sampler a s = Inr s'"
  | (departure)
      "\<forall>a. next_arrival s = Fin a \<longrightarrow> \<not> (xle (Fin a) (next_departure s) \<and> a \<le> sim_time)"
      "departure_event sampler sim_time s = Inr (Some s')"
  using assms
  by (auto simp: sq_iteration_def split: xreal.splits if_splits sum.splits)

lemma arrival_event_order:
  assumes st: "sq_inv_struct arrival_rate sim_time s" and ord: "sq_inv_order s"
    and nn: "nonneg_sampler sampler"
    and ev: "arrival_event draw arrival_rate sampler a s = Inr s'"
    and le: "xle (Fin a) (next_departure s)"
  shows "sq_inv_order s'"
  using ev
proof (cases rule: arrival_event_cases)
  case (idle v w1 e w2)
  have "0 \<le> v" using nn idle(2) by (rule nonneg_samplerD)
  moreover have "queue s = []" using st idle(1) by (rule sq_inv_struct_idle)
  ultimately show ?thesis
    using ord by (simp add: idle(5) sq_inv_order_def packet_ordered_def)
next
  case (busy e w2)
  show ?thesis
    using ord le by (auto simp: busy(4) sq_inv_order_def)
qed

lemma departure_event_order:
  assumes st: "sq_inv_struct arrival_rate sim_time s" and ord: "sq_inv_order s"
    and nn: "nonneg_sampler sampler"
    and ev: "departure_event sampler sim_time s = Inr (Some s')"
  shows "sq_inv_order s'"
  using ev
proof (cases rule: departure_event_cases)
  case (serve_next d p rest v w1)
  have v: "0 \<le> v" using nn serve_next(4) by (rule nonneg_samplerD)
  have q: "\<forall>x \<in> set (p # rest). arrival_time x \<le> d"
    using ord serve_next(1,3) by (auto simp: sq_inv_order_def)
  show ?thesis
    using ord v q
    by (auto simp: serve_next(5) sq_inv_order_def packet_ordered_def split: option.splits)
next
  case (go_idle d)
  show ?thesis
    using ord by (auto simp: go_idle(4) go_idle(3) sq_inv_order_def split: option.splits)
qed

lemma sq_iteration_order:
  assumes "sq_inv_struct arrival_rate sim_time s" and "sq_inv_order s"
    and "nonneg_sampler sampler"
    and "sq_iteration draw arrival_rate sampler sim_time s = Inr (Some s')"
  shows "sq_inv_order s'"
  using assms(4)
  by (cases rule: sq_iteration_cases)
     (blast intro: arrival_event_order [OF assms(1,2,3)] departure_event_order [OF assms(1,2,3)])+


lemma sq_inv_fifoI:
  assumes "sorted (map arrival_time (admitted s))"
    and "\<And>p. p \<in> set (admitted s) \<Longrightarrow> 0 \<le> arrival_time p \<and> arrival_time p \<le> t s"
    and "0 \<le> t s"
    and "xle (Fin (t s)) (next_arrival s)"
    and "sorted (map the_departure (packets_completed s))"
    and "\<And>p. p \<in> set (packets_completed s) \<Longrightarrow> the_departure p \<le> t s"
    and "\<And>d. next_departure s = Fin d \<Longrightarrow> t s \<le> d"
  shows "sq_inv_fifo s"
  using assms unfolding sq_inv_fifo_def by blast

lemma sq_inv_fifoD:
  assumes "sq_inv_fifo s"
  shows "sorted (map arrival_time (admitted s))"
    and "\<And>p. p \<in> set (admitted s) \<Longrightarrow> 0 \<le> arrival_time p"
    and "\<And>p. p \<in> set (admitted s) \<Longrightarrow> arrival_time p \<le> t s"
    and "0 \<le> t s"
    and "xle (Fin (t s)) (next_arrival s)"
    and "sorted (map the_departure (packets_completed s))"
    and "\<And>p. p \<in> set (packets_completed s) \<Longrightarrow> the_departure p \<le> t s"
    and "\<And>d. next_departure s = Fin d \<Longrightarrow> t s \<le> d"
  using assms unfolding sq_inv_fifo_def by blast+

lemma sorted_snoc_le:
  fixes f :: "'a \<Rightarrow> real"
  assumes "sorted (map f xs)" and "\<And>x. x \<in> set xs \<Longrightarrow> f x \<le> f y"
  shows "sorted (map f (xs @ [y]))"
  using assms by (auto simp: sorted_append)

lemma arrival_event_fifo:
  assumes st: "sq_inv_struct arrival_rate sim_time s" and ff: "sq_inv_fifo s"
    and nd: "nonneg_draw draw" and nn: "nonneg_sampler sampler"
    and ev: "arrival_event draw arrival_rate sampler a s = Inr s'"
    and na: "next_arrival s = Fin a"
    and le: "xle (Fin a) (next_departure s)"
  shows "sq_inv_fifo s'"
proof -
  note F = sq_inv_fifoD [OF ff]
  have r: "0 < arrival_rate" using st na by (rule sq_inv_struct_rate)
  have ta: "t s \<le> a" using F(5) na by simp
  have a0: "0 \<le> a" using F(4) ta by simp
  have le_a: "arrival_time p \<le> a" if "p \<in> set (admitted s)" for p
    using F(3) [OF that] ta by simp
  have dep_a: "the_departure p \<le> a" if "p \<in> set (packets_completed s)" for p
    using F(7) [OF that] ta by simp
  show ?thesis
    using ev
  proof (cases rule: arrival_event_cases)
    case (idle v w1 e w2)
    have v: "0 \<le> v" using nn idle(2) by (rule nonneg_samplerD)
    have e: "0 \<le> e" using nd idle(3) by (rule nonneg_drawD)
    have x: "0 \<le> e / arrival_rate" using e r by simp
    note emp = sq_inv_struct_idle(1,2) [OF st idle(1)]
    have adm: "admitted s' =
        admitted s @ [\<lparr>arrival_time = a, start_service = Some a, departure_time = Some (a + v)\<rparr>]"
      by (simp add: idle(5) admitted_def emp)
    have sel: "t s' = a" "next_arrival s' = Fin (a + e / arrival_rate)"
      "packets_completed s' = packets_completed s" "next_departure s' = Fin (a + v)"
      by (simp_all add: idle(5))
    show ?thesis
    proof (rule sq_inv_fifoI)
      show "sorted (map arrival_time (admitted s'))"
        unfolding adm using F(1) le_a by (intro sorted_snoc_le) auto
      show "0 \<le> arrival_time p \<and> arrival_time p \<le> t s'" if "p \<in> set (admitted s')" for p
        using that F(2) [of p] le_a [of p] a0 by (auto simp: adm sel)
      show "0 \<le> t s'" using a0 by (simp add: sel)
      show "xle (Fin (t s')) (next_arrival s')" using x by (simp add: sel)
      show "sorted (map the_departure (packets_completed s'))" using F(6) by (simp add: sel)
      show "the_departure p \<le> t s'" if "p \<in> set (packets_completed s')" for p
        using that dep_a [of p] by (simp add: sel)
      show "t s' \<le> d" if "next_departure s' = Fin d" for d
        using that v by (auto simp: sel)
    qed
  next
    case (busy e w2)
    have e: "0 \<le> e" using nd busy(2) by (rule nonneg_drawD)
    have x: "0 \<le> e / arrival_rate" using e r by simp
    have adm: "admitted s' =
        admitted s @ [\<lparr>arrival_time = a, start_service = None, departure_time = None\<rparr>]"
      by (simp add: busy(4) admitted_def)
    have sel: "t s' = a" "next_arrival s' = Fin (a + e / arrival_rate)"
      "packets_completed s' = packets_completed s" "next_departure s' = next_departure s"
      by (simp_all add: busy(4))
    show ?thesis
    proof (rule sq_inv_fifoI)
      show "sorted (map arrival_time (admitted s'))"
        unfolding adm using F(1) le_a by (intro sorted_snoc_le) auto
      show "0 \<le> arrival_time p \<and> arrival_time p \<le> t s'" if "p \<in> set (admitted s')" for p
        using that F(2) [of p] le_a [of p] a0 by (auto simp: adm sel)
      show "0 \<le> t s'" using a0 by (simp add: sel)
      show "xle (Fin (t s')) (next_arrival s')" using x by (simp add: sel)
      show "sorted (map the_departure (packets_completed s'))" using F(6) by (simp add: sel)
      show "the_departure p \<le> t s'" if "p \<in> set (packets_completed s')" for p
        using that dep_a [of p] by (simp add: sel)
      show "t s' \<le> d" if "next_departure s' = Fin d" for d
        using that le by (auto simp: sel)
    qed
  qed
qed

lemma departure_event_fifo:
  assumes st: "sq_inv_struct arrival_rate sim_time s" and ff: "sq_inv_fifo s"
    and nn: "nonneg_sampler sampler"
    and ev: "departure_event sampler sim_time s = Inr (Some s')"
    and br: "\<forall>a. next_arrival s = Fin a \<longrightarrow> \<not> (xle (Fin a) (next_departure s) \<and> a \<le> sim_time)"
  shows "sq_inv_fifo s'"
proof -
  note F = sq_inv_fifoD [OF ff]
  have main: "sq_inv_fifo s'"
    if nd: "next_departure s = Fin d" and dT: "d \<le> sim_time"
      and adm: "map arrival_time (admitted s') = map arrival_time (admitted s)"
      and sel: "t s' = d" "next_arrival s' = next_arrival s"
        "packets_completed s' =
           (case current_serving s of None \<Rightarrow> packets_completed s
            | Some c \<Rightarrow> packets_completed s @ [c])"
      and nxt: "\<And>d'. next_departure s' = Fin d' \<Longrightarrow> d \<le> d'"
    for d
  proof -
    have td: "t s \<le> d" using F(8) nd by simp
    have d0: "0 \<le> d" using F(4) td by simp
    obtain c where c: "current_serving s = Some c" "departure_time c = Some d"
      using sq_inv_struct_serving [OF st nd] by blast
    have cd: "the_departure c = d" using c(2) by (simp add: the_departure_def)
    have le_d: "arrival_time p \<le> d" if "p \<in> set (admitted s)" for p
      using F(3) [OF that] td by simp
    have dep_d: "the_departure p \<le> d" if "p \<in> set (packets_completed s)" for p
      using F(7) [OF that] td by simp
    show ?thesis
    proof (rule sq_inv_fifoI)
      show "sorted (map arrival_time (admitted s'))" using F(1) by (simp add: adm)
      show "0 \<le> arrival_time p \<and> arrival_time p \<le> t s'" if "p \<in> set (admitted s')" for p
      proof -
        have "arrival_time p \<in> set (map arrival_time (admitted s))"
          using that unfolding adm [symmetric] by simp
        then obtain q where "q \<in> set (admitted s)" "arrival_time q = arrival_time p"
          by auto
        then show ?thesis using F(2) [of q] le_d [of q] by (simp add: sel)
      qed
      show "0 \<le> t s'" using d0 by (simp add: sel)
      show "xle (Fin (t s')) (next_arrival s')"
        using br nd dT by (cases "next_arrival s") (auto simp: sel)
      show "sorted (map the_departure (packets_completed s'))"
        using F(6) dep_d cd by (auto simp: sel c sorted_append)
      show "the_departure p \<le> t s'" if "p \<in> set (packets_completed s')" for p
        using that dep_d [of p] cd by (auto simp: sel c)
      show "t s' \<le> d'" if "next_departure s' = Fin d'" for d'
        using nxt [OF that] by (simp add: sel)
    qed
  qed
  show ?thesis
    using ev
  proof (cases rule: departure_event_cases)
    case (serve_next d p rest v w1)
    have v: "0 \<le> v" using nn serve_next(4) by (rule nonneg_samplerD)
    obtain c where c: "current_serving s = Some c"
      using sq_inv_struct_serving [OF st serve_next(1)] by blast
    show ?thesis
    proof (rule main [OF serve_next(1,2)])
      show "map arrival_time (admitted s') = map arrival_time (admitted s)"
        by (simp add: serve_next(5) admitted_def c serve_next(3))
    qed (use v in \<open>simp_all add: serve_next(5)\<close>)
  next
    case (go_idle d)
    obtain c where c: "current_serving s = Some c"
      using sq_inv_struct_serving [OF st go_idle(1)] by blast
    show ?thesis
    proof (rule main [OF go_idle(1,2)])
      show "map arrival_time (admitted s') = map arrival_time (admitted s)"
        by (simp add: go_idle(4) admitted_def c go_idle(3))
    qed (simp_all add: go_idle(4))
  qed
qed

lemma sq_iteration_fifo:
  assumes "sq_inv_struct arrival_rate sim_time s" and "sq_inv_fifo s"
    and "nonneg_draw draw" and "nonneg_sampler sampler"
    and "sq_iteration draw arrival_rate sampler sim_time s = Inr (Some s')"
  shows "sq_inv_fifo s'"
  using assms(5)
  by (cases rule: sq_iteration_cases)
     (blast intro: arrival_event_fifo [OF assms(1,2,3,4)] departure_event_fifo [OF assms(1,2,4)])+

section \<open>The invariants hold when the loop ends\<close>

lemma sq_init_struct:
  assumes "na = PInf \<or> 0 < arrival_rate"
  shows "sq_inv_struct arrival_rate sim_time (sq_init na w)"
  using assms by (auto simp: sq_inv_struct_def sq_init_def)

lemma sq_init_order: "sq_inv_order (sq_init na w)"
  by (simp add: sq_inv_order_def sq_init_def)

lemma sq_init_fifo:
  assumes "xle (Fin 0) na"
  shows "sq_inv_fifo (sq_init na w)"
  using assms by (simp add: sq_inv_fifo_def sq_init_def admitted_def)

lemma sq_run_cases:
  assumes "sq_run draw arrival_rate sampler sim_time max_packets w = Inr s"
  obtains (arrivals) e w1 where
      "0 < arrival_rate" "draw w = (e, w1)"
      "sq_loop draw arrival_rate sampler sim_time max_packets (sq_init (Fin (e / arrival_rate)) w1) = Inr s"
  | (no_arrivals)
      "arrival_rate \<le> 0"
      "sq_loop draw arrival_rate sampler sim_time max_packets (sq_init PInf w) = Inr s"
  using assms
  by (auto simp: sq_run_def expovariate_def split: if_splits prod.splits)

lemma sq_run_invariant:
  assumes run: "sq_run draw arrival_rate sampler sim_time max_packets w = Inr s"
    and init0: "\<And>w1. I (sq_init PInf w1)"
    and init1: "\<And>e w1. 0 < arrival_rate \<Longrightarrow> draw w = (e, w1) \<Longrightarrow> I (sq_init (Fin (e / arrival_rate)) w1)"
    and step: "\<And>u u'. sq_inv_struct arrival_rate sim_time u \<Longrightarrow> I u \<Longrightarrow>
                 sq_iteration draw arrival_rate sampler sim_time u = Inr (Some u') \<Longrightarrow> I u'"
  shows "sq_inv_struct arrival_rate sim_time s \<and> I s"
proof -
  let ?J = "\<lambda>u. sq_inv_struct arrival_rate sim_time u \<and> I u"
  have J: "?J u'"
    if "?J u" "sq_iteration draw arrival_rate sampler sim_time u = Inr (Some u')" for u u'
  proof
    show "sq_inv_struct arrival_rate sim_time u'"
      using that sq_iteration_struct by blast
    show "I u'" using that step by blast
  qed
  show ?thesis
    using run
  proof (cases rule: sq_run_cases)
    case (arrivals e w1)
    have "?J (sq_init (Fin (e / arrival_rate)) w1)"
      using init1 [OF arrivals(1,2)] sq_init_struct [of _ arrival_rate] arrivals(1) by simp
    then show ?thesis
      using J by (rule sq_loop_invariant [OF arrivals(3), where I = ?J])
  next
    case no_arrivals
    have "?J (sq_init PInf w)"
      using init0 sq_init_struct [of PInf] by simp
    then show ?thesis
      using J by (rule sq_loop_invariant [OF no_arrivals(2), where I = ?J])
  qed
qed

lemma sq_run_struct:
  assumes "sq_run draw arrival_rate sampler sim_time max_packets w = Inr s"
  shows "sq_inv_struct arrival_rate sim_time s"
  using sq_run_invariant [OF assms, where I = "\<lambda>u. True"] by simp

lemma sq_run_order:
  assumes nn: "nonneg_sampler sampler"
    and run: "sq_run draw arrival_rate sampler sim_time max_packets w = Inr s"
  shows "sq_inv_order s"
proof -
  have "sq_inv_struct arrival_rate sim_time s \<and> sq_inv_order s"
  proof (rule sq_run_invariant [OF run])
    fix u u' :: "'a sim_state"
    assume "sq_inv_struct arrival_rate sim_time u" "sq_inv_order u"
      "sq_iteration draw arrival_rate sampler sim_time u = Inr (Some u')"
    then show "sq_inv_order u'" using nn sq_iteration_order by blast
  qed (rule sq_init_order)+
  then show ?thesis ..
qed

lemma sq_run_fifo:
  assumes nd: "nonneg_draw draw" and nn: "nonneg_sampler sampler"
    and run: "sq_run draw arrival_rate sampler sim_time max_packets w = Inr s"
  shows "sq_inv_fifo s"
proof -
  have "sq_inv_struct arrival_rate sim_time s \<and> sq_inv_fifo s"
  proof (rule sq_run_invariant [OF run])
    fix u u' :: "'a sim_state"
    assume "sq_inv_struct arrival_rate sim_time u" "sq_inv_fifo u"
      "sq_iteration draw arrival_rate sampler sim_time u = Inr (Some u')"
    then show "sq_inv_fifo u'" using nd nn sq_iteration_fifo by blast
  next
    fix w1 :: 'a
    show "sq_inv_fifo (sq_init PInf w1)" by (simp add: sq_init_fifo)
  next
    fix e and w1 :: 'a
    assume "0 < arrival_rate" "draw w = (e, w1)"
    then have "0 \<le> e / arrival_rate" using nonneg_drawD [OF nd] by simp
    then show "sq_inv_fifo (sq_init (Fin (e / arrival_rate)) w1)" by (simp add: sq_init_fifo)
  qed
  then show ?thesis ..
qed


section \<open>The result loop and concrete runs\<close>

lemma collect_results_Inr:
  assumes "collect_results ps = Inr (delays, queueing_times)"
  shows "delays = map (\<lambda>p. the_departure p - arrival_time p) ps"
    and "queueing_times =
           map (\<lambda>p. case start_service p of
                       None \<Rightarrow> 0
                     | Some st \<Rightarrow> if st \<noteq> 0 then st - arrival_time p else 0) ps"
    and "\<forall>p \<in> set ps. departure_time p \<noteq> None"
  using assms
  by (induction ps arbitrary: delays queueing_times;
      auto simp: the_departure_def Let_def split: option.splits sum.splits prod.splits)+

lemma collect_results_total:
  assumes "\<forall>p \<in> set ps. departure_time p \<noteq> None"
  shows "\<exists>r. collect_results ps = Inr r"
  using assms
  by (induction ps) (auto simp: Let_def split: option.splits sum.splits prod.splits)

lemma simulate_queue_cases:
  assumes "simulate_queue draw arrival_rate sampler sim_time max_packets w = Inr (r, w')"
  obtains s where "sq_run draw arrival_rate sampler sim_time max_packets w = Inr s"
    and "collect_results (packets_completed s) = Inr r" and "w' = world s"
  using assms by (auto simp: simulate_queue_def split: sum.splits)

lemma nonneg_script_draw: "nonneg_draw script_draw"
  by (auto simp: nonneg_draw_def script_draw_def split: list.splits)

lemma nonneg_md1_sampler: "0 \<le> c \<Longrightarrow> nonneg_sampler (md1_sampler c)"
  by (simp add: nonneg_sampler_def md1_sampler_def)

lemma total_md1_sampler: "total_sampler (md1_sampler c)"
  by (simp add: total_sampler_def md1_sampler_def)

lemmas sq_eval =
  sq_run_def sq_loop.simps sq_iteration_def arrival_event_def departure_event_def
  expovariate_def script_draw_def script_sampler_def md1_sampler_def sq_init_def Packet_def Let_def

lemma demo_run:
  "sq_run script_draw 1 (md1_sampler (3 / 2)) 6 10 ([1, 1, 1, 10], []) =
     Inr \<lparr>t = 11 / 2, next_arrival = Fin 13, queue = [], server_busy = False,
          next_departure = PInf,
          packets_completed =
            [\<lparr>arrival_time = 1, start_service = Some 1, departure_time = Some (5 / 2)\<rparr>,
             \<lparr>arrival_time = 2, start_service = Some (5 / 2), departure_time = Some 4\<rparr>,
             \<lparr>arrival_time = 3, start_service = Some 4, departure_time = Some (11 / 2)\<rparr>],
          current_serving = None, packet_count = 3, world = ([], [])\<rparr>"
  by (simp add: sq_eval)



lemma demo_result:
  "simulate_queue script_draw 1 (md1_sampler (3 / 2)) 6 10 ([1, 1, 1, 10], []) =
     Inr (([3 / 2, 2, 5 / 2], [0, 1 / 2, 1]), ([], []))"
  by (simp add: simulate_queue_def demo_run)

lemma horizon_run:
  "sq_run script_draw 1 script_sampler 2 10 ([1, 4], [1]) =
     Inr \<lparr>t = 2, next_arrival = Fin 5, queue = [], server_busy = False,
          next_departure = PInf,
          packets_completed =
            [\<lparr>arrival_time = 1, start_service = Some 1, departure_time = Some 2\<rparr>],
          current_serving = None, packet_count = 1, world = ([], [])\<rparr>"
  by (simp add: sq_eval)


lemma zero_start_run:
  "sq_run script_draw 1 script_sampler 50 10 ([1, 1, 1], [5, -6, 1]) =
     Inr \<lparr>t = 1, next_arrival = Fin 103, queue = [], server_busy = False,
          next_departure = PInf,
          packets_completed =
            [\<lparr>arrival_time = 1, start_service = Some 1, departure_time = Some 6\<rparr>,
             \<lparr>arrival_time = 2, start_service = Some 6, departure_time = Some 0\<rparr>,
             \<lparr>arrival_time = 3, start_service = Some 0, departure_time = Some 1\<rparr>],
          current_serving = None, packet_count = 3, world = ([], [])\<rparr>"
  by (simp add: sq_eval)

section \<open>Termination, the runner and the rounding\<close>

lemma total_samplerD:
  assumes "total_sampler sampler"
  obtains v w' where "sampler w = Inr (v, w')"
  using assms unfolding total_sampler_def by blast

lemma arrival_event_total:
  assumes ts: "total_sampler sampler" and r: "0 < arrival_rate"
  shows "\<exists>s'. arrival_event draw arrival_rate sampler a s = Inr s'"
proof -
  obtain v w1 where v: "sampler (world s) = Inr (v, w1)"
    using ts by (rule total_samplerD)
  show ?thesis
    using v r
    by (cases "server_busy s")
       (auto simp: arrival_event_def expovariate_def Let_def split: prod.splits)
qed

lemma departure_event_total:
  assumes ts: "total_sampler sampler"
  shows "\<exists>r. departure_event sampler sim_time s = Inr r"
proof -
  obtain v w1 where v: "sampler (world s) = Inr (v, w1)"
    using ts by (rule total_samplerD)
  show ?thesis
    using v
    by (auto simp: departure_event_def Let_def split: xreal.splits list.splits)
qed

lemma sq_iteration_total:
  assumes ts: "total_sampler sampler" and st: "sq_inv_struct arrival_rate sim_time s"
  shows "\<exists>r. sq_iteration draw arrival_rate sampler sim_time s = Inr r"
proof (cases "next_arrival s")
  case PInf
  then show ?thesis
    using departure_event_total [OF ts] by (simp add: sq_iteration_def)
next
  case (Fin a)
  have r: "0 < arrival_rate" using st Fin by (rule sq_inv_struct_rate)
  obtain s' where "arrival_event draw arrival_rate sampler a s = Inr s'"
    using arrival_event_total [OF ts r] by blast
  then show ?thesis
    using Fin departure_event_total [OF ts, of sim_time s] by (auto simp: sq_iteration_def)
qed

lemma sq_loop_total:
  assumes "total_sampler sampler" and "sq_inv_struct arrival_rate sim_time s"
  shows "\<exists>s'. sq_loop draw arrival_rate sampler sim_time max_packets s = Inr s'"
  using assms
proof (induction draw arrival_rate sampler sim_time max_packets s rule: sq_loop.induct)
  case (1 draw arrival_rate sampler sim_time max_packets s)
  show ?case
  proof (cases "t s < sim_time \<and> packet_count s < max_packets")
    case False
    then show ?thesis by (auto simp: sq_loop.simps [of _ _ _ _ _ s])
  next
    case True
    obtain r where r: "sq_iteration draw arrival_rate sampler sim_time s = Inr r"
      using sq_iteration_total [OF "1.prems"] by blast
    show ?thesis
    proof (cases r)
      case None
      with True r show ?thesis by (simp add: sq_loop.simps)
    next
      case (Some u)
      have "sq_inv_struct arrival_rate sim_time u"
        using "1.prems"(2) r Some by (auto intro: sq_iteration_struct)
      then have "\<exists>s'. sq_loop draw arrival_rate sampler sim_time max_packets u = Inr s'"
        using "1.IH" [OF True r Some "1.prems"(1)] by simp
      then show ?thesis using True r Some by (simp add: sq_loop.simps)
    qed
  qed
qed

lemma sq_run_total:
  assumes "total_sampler sampler"
  shows "\<exists>s. sq_run draw arrival_rate sampler sim_time max_packets w = Inr s"
proof (cases "0 < arrival_rate")
  case True
  obtain e w1 where d: "draw w = (e, w1)" by (cases "draw w")
  have "sq_inv_struct arrival_rate sim_time (sq_init (Fin (e / arrival_rate)) w1)"
    using True by (simp add: sq_init_struct)
  from sq_loop_total [OF assms this] show ?thesis
    using True d by (simp add: sq_run_def expovariate_def)
next
  case False
  have "sq_inv_struct arrival_rate sim_time (sq_init PInf w)"
    by (simp add: sq_init_struct)
  from sq_loop_total [OF assms this] show ?thesis
    using False by (simp add: sq_run_def)
qed

lemma simulate_queue_total:
  assumes "total_sampler sampler"
  shows "\<exists>r. simulate_queue draw arrival_rate sampler sim_time max_packets w = Inr r"
proof -
  obtain s where s: "sq_run draw arrival_rate sampler sim_time max_packets w = Inr s"
    using sq_run_total [OF assms] by blast
  have "\<forall>p \<in> set (packets_completed s). departure_time p \<noteq> None"
    using sq_run_struct [OF s] by (auto simp: sq_inv_struct_def)
  then obtain r where "collect_results (packets_completed s) = Inr r"
    using collect_results_total by blast
  then show ?thesis using s by (simp add: simulate_queue_def)
qed

lemma sq_iteration_measure:
  assumes "sq_iteration draw arrival_rate sampler sim_time s = Inr (Some s')"
    and "packet_count s < max_packets"
  shows "sq_measure max_packets s' < sq_measure max_packets s"
  using assms(1)
proof (cases rule: sq_iteration_cases)
  case (arrival a)
  from arrival(4) show ?thesis
    using assms(2) by (cases rule: arrival_event_cases) (auto simp: sq_measure_def split: xreal.splits)
next
  case departure
  from departure(2) show ?thesis
    by (cases rule: departure_event_cases) (auto simp: sq_measure_def)
qed

lemma sq_loop_fuel_enough:
  assumes "sq_measure max_packets s \<le> n"
  shows "sq_loop_fuel n draw arrival_rate sampler sim_time max_packets s =
           Some (sq_loop draw arrival_rate sampler sim_time max_packets s)"
  using assms
proof (induction n arbitrary: s)
  case 0
  then have "\<not> packet_count s < max_packets" by (simp add: sq_measure_def)
  then show ?case by (simp add: sq_loop.simps)
next
  case (Suc n)
  show ?case
  proof (cases "t s < sim_time \<and> packet_count s < max_packets")
    case False
    then show ?thesis by (auto simp: sq_loop.simps [of _ _ _ _ _ s])
  next
    case True
    show ?thesis
    proof (cases "sq_iteration draw arrival_rate sampler sim_time s")
      case (Inl e)
      with True show ?thesis by (simp add: sq_loop.simps)
    next
      case (Inr r)
      show ?thesis
      proof (cases r)
        case None
        with True Inr show ?thesis by (simp add: sq_loop.simps)
      next
        case (Some u)
        have "sq_measure max_packets u < sq_measure max_packets s"
          using Inr Some True by (intro sq_iteration_measure) auto
        then have "sq_measure max_packets u \<le> n" using Suc.prems by simp
        then show ?thesis
          using Suc.IH [of u] True Inr Some by (simp add: sq_loop.simps [of _ _ _ _ _ s])
      qed
    qed
  qed
qed

lemma demo_loop:
  "sq_loop script_draw 1 (md1_sampler (3 / 2)) 6 10 (sq_init (Fin 1) ([1, 1, 10], [])) =
     Inr \<lparr>t = 11 / 2, next_arrival = Fin 13, queue = [], server_busy = False,
          next_departure = PInf,
          packets_completed =
            [\<lparr>arrival_time = 1, start_service = Some 1, departure_time = Some (5 / 2)\<rparr>,
             \<lparr>arrival_time = 2, start_service = Some (5 / 2), departure_time = Some 4\<rparr>,
             \<lparr>arrival_time = 3, start_service = Some 4, departure_time = Some (11 / 2)\<rparr>],
          current_serving = None, packet_count = 3, world = ([], [])\<rparr>"
  by (simp add: sq_eval)

lemma total_mm1_sampler:
  assumes "service_time_mean \<noteq> 0"
  shows "total_sampler (mm1_sampler draw service_time_mean)"
  using assms
  by (auto simp: total_sampler_def mm1_sampler_def expovariate_def split: prod.splits)

lemma experiment_row_total:
  assumes "service_time_mean \<noteq> 0"
  shows "\<exists>r w'. experiment_row draw service_rate_packets service_time_mean sim_time rh w = Inr (r, w')"
proof -
  let ?lam = "rh * service_rate_packets"
  have "\<exists>r. simulate_queue draw ?lam (mm1_sampler draw service_time_mean) sim_time
          default_max_packets w = Inr r"
    by (rule simulate_queue_total [OF total_mm1_sampler [OF assms]])
  then obtain d1 q1 w1 where
    m: "simulate_queue draw ?lam (mm1_sampler draw service_time_mean) sim_time
          default_max_packets w = Inr ((d1, q1), w1)"
    by auto
  have "\<exists>r. simulate_queue draw ?lam (md1_sampler service_time_mean) sim_time
          default_max_packets w1 = Inr r"
    by (rule simulate_queue_total [OF total_md1_sampler])
  then obtain d2 q2 w2 where
    d: "simulate_queue draw ?lam (md1_sampler service_time_mean) sim_time
          default_max_packets w1 = Inr ((d2, q2), w2)"
    by auto
  show ?thesis
    by (simp add: experiment_row_def Let_def m d)
qed

lemma experiment_row_Inr:
  assumes "experiment_row draw service_rate_packets service_time_mean sim_time rh w = Inr (r, w')"
  shows "rho r = rh"
    and "arrival_rate_pkts_s r = rh * service_rate_packets"
    and "service_rate_pkts_s r = service_rate_packets"
    and "analytic_mm1_total_s r =
           (if rh * service_rate_packets < service_rate_packets
            then Fin (1 / (service_rate_packets - rh * service_rate_packets)) else PInf)"
    and "analytic_mm1_queue_s r =
           (if rh * service_rate_packets < service_rate_packets
            then Fin (rh / (service_rate_packets - rh * service_rate_packets)) else PInf)"
  using assms
  by (auto simp: experiment_row_def Let_def split: sum.splits prod.splits if_splits)

lemma run_rows_total:
  assumes "service_time_mean \<noteq> 0"
  shows "\<exists>rows w'. run_rows draw service_rate_packets service_time_mean sim_time rhos w = Inr (rows, w')"
proof (induction rhos arbitrary: w)
  case Nil
  show ?case by simp
next
  case (Cons rh rest)
  have "\<exists>r w1. experiment_row draw service_rate_packets service_time_mean sim_time rh w = Inr (r, w1)"
    by (rule experiment_row_total [OF assms])
  then obtain r w1 where
    r: "experiment_row draw service_rate_packets service_time_mean sim_time rh w = Inr (r, w1)"
    by blast
  obtain rows w2 where
    "run_rows draw service_rate_packets service_time_mean sim_time rest w1 = Inr (rows, w2)"
    using Cons.IH by blast
  then show ?case using r by simp
qed

lemma run_rows_Inr:
  assumes "run_rows draw service_rate_packets service_time_mean sim_time rhos w = Inr (rows, w')"
  shows "list_all2 (row_for service_rate_packets) rows rhos"
  using assms
proof (induction rhos arbitrary: w rows)
  case Nil
  then show ?case by simp
next
  case (Cons rh rest)
  from Cons.prems obtain r w1 rows' where
    r: "experiment_row draw service_rate_packets service_time_mean sim_time rh w = Inr (r, w1)"
    and rest: "run_rows draw service_rate_packets service_time_mean sim_time rest w1 = Inr (rows', w')"
    and rows: "rows = r # rows'"
    by (auto split: sum.splits prod.splits)
  have "row_for service_rate_packets r rh"
    unfolding row_for_def using experiment_row_Inr [OF r] by simp
  then show ?case using Cons.IH [OF rest] rows by simp
qed

lemma run_experiments_cases:
  assumes "run_experiments draw packet_size_bytes bandwidth_bps rho_list sim_time w = Inr (rows, w')"
  shows "packet_size_bytes \<noteq> 0" and "bandwidth_bps \<noteq> 0"
    and "run_rows draw (bandwidth_bps / (packet_size_bytes * 8))
           (1 / (bandwidth_bps / (packet_size_bytes * 8))) sim_time
           (case rho_list of None \<Rightarrow> default_rho_list | Some l \<Rightarrow> l) w = Inr (rows, w')"
  using assms by (auto simp: run_experiments_def Let_def split: if_splits)

lemmas runner_eval =
  run_experiments_def experiment_row_def simulate_queue_def mm1_sampler_def
  default_max_packets_def mean_def sq_eval

lemma sweep_run:
  "run_experiments script_draw 1500 10000000 (Some [1 / 2, 1]) (1 / 1000) ([], []) =
     Inr ([\<lparr>rho = 1 / 2, arrival_rate_pkts_s = 1250 / 3, service_rate_pkts_s = 2500 / 3,
             tx_delay_s = 3 / 2500, sim_total_mm1_s = NaN, sim_queue_mm1_s = 0,
             sim_total_md1_s = NaN, sim_queue_md1_s = 0,
             analytic_mm1_total_s = Fin (3 / 1250), analytic_mm1_queue_s = Fin (3 / 2500)\<rparr>,
           \<lparr>rho = 1, arrival_rate_pkts_s = 2500 / 3, service_rate_pkts_s = 2500 / 3,
             tx_delay_s = 3 / 2500, sim_total_mm1_s = NaN, sim_queue_mm1_s = 0,
             sim_total_md1_s = NaN, sim_queue_md1_s = 0,
             analytic_mm1_total_s = PInf, analytic_mm1_queue_s = PInf\<rparr>],
          ([], []))"
  by (simp add: runner_eval)



















section \<open>The two models of the simulator agree on finite horizons\<close>

lemmas sq_eval_x =
  sq_run_x_def sq_loop_x.simps sq_iteration_x_def arrival_event_x_def departure_event_x_def
  expovariate_def script_draw_def script_sampler_def md1_sampler_def sq_init_x_def XPacket_def
  xlt_def Let_def

lemma arrival_event_embed:
  assumes "next_arrival s = Fin a"
  shows "arrival_event_x draw arrival_rate sampler (embed_state s) =
           map_sum id embed_state (arrival_event draw arrival_rate sampler a s)"
  using assms
  by (auto simp: arrival_event_x_def arrival_event_def embed_state_def embed_packet_def
        expovariate_def XPacket_def Packet_def Let_def
      split: sum.splits prod.splits)

lemma departure_event_embed:
  "departure_event_x sampler (Fin sim_time) (embed_state s) =
     map_sum id (map_option embed_state) (departure_event sampler sim_time s)"
  by (cases "next_departure s"; cases "queue s"; cases "current_serving s")
     (auto simp: departure_event_x_def departure_event_def embed_state_def embed_packet_def
        xlt_def Let_def
      split: sum.splits prod.splits)

lemma sq_iteration_embed:
  "sq_iteration_x draw arrival_rate sampler (Fin sim_time) (embed_state s) =
     map_sum id (map_option embed_state) (sq_iteration draw arrival_rate sampler sim_time s)"
proof (cases "next_arrival s")
  case PInf
  then have "x_next_arrival (embed_state s) = PInf" by (simp add: embed_state_def)
  then show ?thesis
    using PInf by (simp add: sq_iteration_x_def sq_iteration_def departure_event_embed)
next
  case (Fin a)
  have na: "x_next_arrival (embed_state s) = Fin a" "x_next_departure (embed_state s) = next_departure s"
    using Fin by (simp_all add: embed_state_def)
  show ?thesis
    using Fin
    by (auto simp: sq_iteration_x_def sq_iteration_def na departure_event_embed
          arrival_event_embed [OF Fin] split: sum.splits)
qed

lemma sq_loop_embed:
  "sq_loop_x draw arrival_rate sampler (Fin sim_time) max_packets (embed_state s) =
     map_sum id embed_state (sq_loop draw arrival_rate sampler sim_time max_packets s)"
proof (induction draw arrival_rate sampler sim_time max_packets s rule: sq_loop.induct)
  case (1 draw arrival_rate sampler sim_time max_packets s)
  have c: "xlt (x_t (embed_state s)) (Fin sim_time) \<longleftrightarrow> t s < sim_time"
    "x_packet_count (embed_state s) = packet_count s"
    by (auto simp: embed_state_def xlt_def)
  show ?case
  proof (cases "t s < sim_time \<and> packet_count s < max_packets")
    case False
    then show ?thesis
      by (auto simp: sq_loop.simps [of _ _ _ _ _ s] sq_loop_x.simps [of _ _ _ _ _ "embed_state s"] c)
  next
    case True
    show ?thesis
    proof (cases "sq_iteration draw arrival_rate sampler sim_time s")
      case (Inl e)
      then show ?thesis
        using True
        by (simp add: sq_loop.simps [of _ _ _ _ _ s] sq_loop_x.simps [of _ _ _ _ _ "embed_state s"]
              c sq_iteration_embed)
    next
      case (Inr r)
      show ?thesis
      proof (cases r)
        case None
        then show ?thesis
          using True Inr
          by (simp add: sq_loop.simps [of _ _ _ _ _ s] sq_loop_x.simps [of _ _ _ _ _ "embed_state s"]
                c sq_iteration_embed)
      next
        case (Some u)
        then show ?thesis
          using True Inr "1.IH" [OF True Inr Some]
          by (simp add: sq_loop.simps [of _ _ _ _ _ s] sq_loop_x.simps [of _ _ _ _ _ "embed_state s"]
                c sq_iteration_embed)
      qed
    qed
  qed
qed

lemma sq_run_embed:
  "sq_run_x draw arrival_rate sampler (Fin sim_time) max_packets w =
     map_sum id embed_state (sq_run draw arrival_rate sampler sim_time max_packets w)"
proof -
  have i: "sq_init_x na w1 = embed_state (sq_init na w1)" for na and w1 :: 'a
    by (simp add: sq_init_x_def sq_init_def embed_state_def)
  show ?thesis
    by (auto simp: sq_run_x_def sq_run_def i sq_loop_embed expovariate_def
          split: sum.splits prod.splits)
qed

lemma collect_results_embed:
  "collect_results_x (map embed_packet ps) =
     map_sum id (\<lambda>(delays, queueing_times). (map Float delays, map Float queueing_times))
       (collect_results ps)"
  by (induction ps)
     (auto simp: embed_packet_def Let_def split: option.splits sum.splits prod.splits)

lemma simulate_queue_embed:
  "simulate_queue_x draw arrival_rate sampler (Fin sim_time) max_packets w =
     map_sum id (\<lambda>((delays, queueing_times), w').
                   ((map Float delays, map Float queueing_times), w'))
       (simulate_queue draw arrival_rate sampler sim_time max_packets w)"
proof (cases "sq_run draw arrival_rate sampler sim_time max_packets w")
  case (Inl e)
  then show ?thesis by (simp add: simulate_queue_x_def simulate_queue_def sq_run_embed)
next
  case (Inr s)
  have "x_packets_completed (embed_state s) = map embed_packet (packets_completed s)"
    "x_world (embed_state s) = world s"
    by (simp_all add: embed_state_def)
  then show ?thesis
    using Inr
    by (auto simp: simulate_queue_x_def simulate_queue_def sq_run_embed collect_results_embed
          split: sum.splits prod.splits)
qed

section \<open>The claims\<close>

text \<open>
  C4. With a sampler that returns only non-negative values, every completed packet of a
  run of \<open>simulate_queue\<close> has \<open>arrival_time \<le> start_service \<le> departure_time\<close>.
\<close>

theorem completed_packets_ordered:
  assumes "nonneg_sampler service_time_sampler"
    and "sq_run draw arrival_rate service_time_sampler sim_time max_packets w = Inr s"
  shows "\<forall>p \<in> set (packets_completed s).
           \<exists>st d. start_service p = Some st \<and> departure_time p = Some d \<and>
                  arrival_time p \<le> st \<and> st \<le> d"
proof
  fix p assume "p \<in> set (packets_completed s)"
  then have "packet_ordered p"
    using sq_run_order [OF assms] by (simp add: sq_inv_order_def)
  then show "\<exists>st d. start_service p = Some st \<and> departure_time p = Some d \<and>
                    arrival_time p \<le> st \<and> st \<le> d"
    by (auto simp: packet_ordered_def split: option.splits)
qed

theorem completed_packets_ordered_witness:
  "nonneg_sampler (md1_sampler (3 / 2) :: script sampler) \<and>
   (\<exists>s. sq_run script_draw 1 (md1_sampler (3 / 2)) 6 10 ([1, 1, 1, 10], []) = Inr s \<and>
        length (packets_completed s) = 3 \<and>
        list_all (\<lambda>p. \<exists>st d. start_service p = Some st \<and> departure_time p = Some d \<and>
                              arrival_time p \<le> st \<and> st \<le> d) (packets_completed s))"
proof -
  have nn: "nonneg_sampler (md1_sampler (3 / 2) :: script sampler)"
    by (simp add: nonneg_md1_sampler)
  show ?thesis
    using nn completed_packets_ordered [OF nn demo_run]
    by (simp add: demo_run list_all_iff del: ex_simps)
qed

text \<open>
  C10. In every run of \<open>simulate_queue\<close>, every packet in the completed-packets
  collection has \<open>start_service\<close> and \<open>departure_time\<close> set, so the result loop never
  subtracts from an unset field: it returns its two lists.
\<close>

theorem completed_packets_set:
  assumes "sq_run draw arrival_rate service_time_sampler sim_time max_packets w = Inr s"
  shows "(\<forall>p \<in> set (packets_completed s). start_service p \<noteq> None \<and> departure_time p \<noteq> None) \<and>
         (\<exists>r. collect_results (packets_completed s) = Inr r)"
proof -
  have *: "\<forall>p \<in> set (packets_completed s). start_service p \<noteq> None \<and> departure_time p \<noteq> None"
    using sq_run_struct [OF assms] by (auto simp: sq_inv_struct_def)
  then have "\<exists>r. collect_results (packets_completed s) = Inr r"
    by (intro collect_results_total) simp
  with * show ?thesis by blast
qed

theorem completed_packets_set_witness:
  "\<exists>s. sq_run script_draw 1 (md1_sampler (3 / 2)) 6 10 ([1, 1, 1, 10], []) = Inr s \<and>
       length (packets_completed s) = 3 \<and>
       list_all (\<lambda>p. start_service p \<noteq> None \<and> departure_time p \<noteq> None) (packets_completed s) \<and>
       (\<exists>r. collect_results (packets_completed s) = Inr r)"
  using completed_packets_set [OF demo_run]
  by (simp add: demo_run list_all_iff del: ex_simps)

text \<open>
  C1 (as amended). A packet is counted as completed when its departure time is at or
  before the horizon: every packet behind the output sequences has
  \<open>departure_time \<le> sim_time\<close>, the two sequences have one entry per such packet, and a
  departure event whose time is beyond the horizon ends the loop without recording the
  packet in service.
\<close>

theorem completed_within_horizon:
  assumes "simulate_queue draw arrival_rate service_time_sampler sim_time max_packets w =
             Inr ((delays, queueing_times), w')"
  shows "\<exists>s. sq_run draw arrival_rate service_time_sampler sim_time max_packets w = Inr s \<and>
             length delays = length (packets_completed s) \<and>
             length queueing_times = length (packets_completed s) \<and>
             (\<forall>p \<in> set (packets_completed s). \<exists>d. departure_time p = Some d \<and> d \<le> sim_time) \<and>
             (\<forall>u d. next_departure u = Fin d \<and> sim_time < d \<longrightarrow>
                    departure_event service_time_sampler sim_time u = Inr None)"
  using assms
proof (cases rule: simulate_queue_cases)
  case (1 s)
  have "\<forall>p \<in> set (packets_completed s). \<exists>d. departure_time p = Some d \<and> d \<le> sim_time"
    using sq_run_struct [OF 1(1)] by (auto simp: sq_inv_struct_def)
  moreover have "departure_event service_time_sampler sim_time u = Inr None"
    if "next_departure u = Fin d \<and> sim_time < d" for u :: "'a sim_state" and d
    using that by (simp add: departure_event_def)
  ultimately show ?thesis
    using 1(1) collect_results_Inr(1,2) [OF 1(2)] by auto
qed

theorem completed_within_horizon_witness:
  "\<exists>s. sq_run script_draw 1 (md1_sampler (3 / 2)) 6 10 ([1, 1, 1, 10], []) = Inr s \<and>
       length [3 / 2, 2, 5 / 2 :: real] = length (packets_completed s) \<and>
       list_all (\<lambda>p. \<exists>d. departure_time p = Some d \<and> d \<le> 6) (packets_completed s)"
  using completed_within_horizon [OF demo_result]
  by (auto simp: demo_run list_all_iff)

theorem completed_at_horizon_counterexample:
  "sq_run script_draw 1 script_sampler 2 10 ([1, 4], [1]) =
     Inr \<lparr>t = 2, next_arrival = Fin 5, queue = [], server_busy = False,
          next_departure = PInf,
          packets_completed =
            [\<lparr>arrival_time = 1, start_service = Some 1, departure_time = Some 2\<rparr>],
          current_serving = None, packet_count = 1, world = ([], [])\<rparr> \<and>
   simulate_queue script_draw 1 script_sampler 2 10 ([1, 4], [1]) = Inr (([1], [0]), ([], []))"
  by (simp add: simulate_queue_def horizon_run)





text \<open>
  C5 (as amended). \<open>simulate_queue\<close> returns two sequences with one entry per completed
  packet, in the order of completion: entry \<open>i\<close> of the first is that packet's
  \<open>departure_time - arrival_time\<close>; entry \<open>i\<close> of the second is its
  \<open>start_service - arrival_time\<close>, except that it is \<open>0\<close> when \<open>start_service\<close> is
  exactly \<open>0\<close>. When the inter-arrival variates and the service times are never negative
  the exception makes no difference: the second entry is \<open>start_service - arrival_time\<close>.
\<close>

theorem result_sequences:
  assumes "simulate_queue draw arrival_rate service_time_sampler sim_time max_packets w =
             Inr ((delays, queueing_times), w')"
  shows "\<exists>s. sq_run draw arrival_rate service_time_sampler sim_time max_packets w = Inr s \<and>
             length delays = length (packets_completed s) \<and>
             length queueing_times = length (packets_completed s) \<and>
             (\<forall>i < length (packets_completed s).
                \<exists>st d. start_service (packets_completed s ! i) = Some st \<and>
                       departure_time (packets_completed s ! i) = Some d \<and>
                       delays ! i = d - arrival_time (packets_completed s ! i) \<and>
                       queueing_times ! i =
                         (if st = 0 then 0 else st - arrival_time (packets_completed s ! i))) \<and>
             (nonneg_draw draw \<and> nonneg_sampler service_time_sampler \<longrightarrow>
                (\<forall>i < length (packets_completed s).
                   \<exists>st. start_service (packets_completed s ! i) = Some st \<and>
                        queueing_times ! i = st - arrival_time (packets_completed s ! i)))"
  using assms
proof (cases rule: simulate_queue_cases)
  case (1 s)
  let ?pc = "packets_completed s"
  note C = collect_results_Inr [OF 1(2)]
  have len: "length delays = length ?pc" "length queueing_times = length ?pc"
    by (simp_all add: C(1,2))
  have fields: "\<exists>st d. start_service p = Some st \<and> departure_time p = Some d"
    if "p \<in> set ?pc" for p
    using sq_run_struct [OF 1(1)] that by (auto simp: sq_inv_struct_def)
  have entry: "\<exists>st d. start_service (?pc ! i) = Some st \<and> departure_time (?pc ! i) = Some d \<and>
                  delays ! i = d - arrival_time (?pc ! i) \<and>
                  queueing_times ! i = (if st = 0 then 0 else st - arrival_time (?pc ! i))"
    if i: "i < length ?pc" for i
  proof -
    obtain st d where f: "start_service (?pc ! i) = Some st" "departure_time (?pc ! i) = Some d"
      using fields [of "?pc ! i"] i by auto
    have "delays ! i = d - arrival_time (?pc ! i)"
      using i f by (simp add: C(1) the_departure_def)
    moreover have "queueing_times ! i = (if st = 0 then 0 else st - arrival_time (?pc ! i))"
      using i f by (simp add: C(2))
    ultimately show ?thesis using f by simp
  qed
  have exact: "\<exists>st. start_service (?pc ! i) = Some st \<and>
                  queueing_times ! i = st - arrival_time (?pc ! i)"
    if nd: "nonneg_draw draw" and nn: "nonneg_sampler service_time_sampler"
      and i: "i < length ?pc" for i
  proof -
    obtain st d where f: "start_service (?pc ! i) = Some st" "departure_time (?pc ! i) = Some d"
      and q: "queueing_times ! i = (if st = 0 then 0 else st - arrival_time (?pc ! i))"
      using entry [OF i] by blast
    have mem: "?pc ! i \<in> set ?pc" using i by simp
    have "packet_ordered (?pc ! i)"
      using sq_run_order [OF nn 1(1)] mem by (simp add: sq_inv_order_def)
    then have le: "arrival_time (?pc ! i) \<le> st" using f by (simp add: packet_ordered_def)
    have "?pc ! i \<in> set (admitted s)" using mem by (simp add: admitted_def)
    then have "0 \<le> arrival_time (?pc ! i)"
      by (rule sq_inv_fifoD(2) [OF sq_run_fifo [OF nd nn 1(1)]])
    then have "st = 0 \<Longrightarrow> arrival_time (?pc ! i) = 0" using le by simp
    then show ?thesis using f q by auto
  qed
  show ?thesis
    using 1(1) len entry exact by blast
qed

theorem result_sequences_witness:
  "nonneg_draw script_draw \<and> nonneg_sampler (md1_sampler (3 / 2) :: script sampler) \<and>
   simulate_queue script_draw 1 (md1_sampler (3 / 2)) 6 10 ([1, 1, 1, 10], []) =
     Inr (([3 / 2, 2, 5 / 2], [0, 1 / 2, 1]), ([], [])) \<and>
   (\<exists>s. sq_run script_draw 1 (md1_sampler (3 / 2)) 6 10 ([1, 1, 1, 10], []) = Inr s \<and>
        map arrival_time (packets_completed s) = [1, 2, 3] \<and>
        map start_service (packets_completed s) = [Some 1, Some (5 / 2), Some 4] \<and>
        map departure_time (packets_completed s) = [Some (5 / 2), Some 4, Some (11 / 2)])"
proof -
  have nn: "nonneg_sampler (md1_sampler (3 / 2) :: script sampler)"
    by (simp add: nonneg_md1_sampler)
  show ?thesis
    using nn nonneg_script_draw result_sequences [OF demo_result]
    by (simp add: demo_run demo_result)
qed

theorem result_sequences_counterexample:
  "sq_run script_draw 1 script_sampler 50 10 ([1, 1, 1], [5, -6, 1]) =
     Inr \<lparr>t = 1, next_arrival = Fin 103, queue = [], server_busy = False,
          next_departure = PInf,
          packets_completed =
            [\<lparr>arrival_time = 1, start_service = Some 1, departure_time = Some 6\<rparr>,
             \<lparr>arrival_time = 2, start_service = Some 6, departure_time = Some 0\<rparr>,
             \<lparr>arrival_time = 3, start_service = Some 0, departure_time = Some 1\<rparr>],
          current_serving = None, packet_count = 3, world = ([], [])\<rparr> \<and>
   simulate_queue script_draw 1 script_sampler 50 10 ([1, 1, 1], [5, -6, 1]) =
     Inr (([5, -2, -2], [0, 4, 0]), ([], [])) \<and>
   [0, 4, 0] ! 2 \<noteq> (0 - 3 :: real)"
  by (simp add: simulate_queue_def zero_start_run)

text \<open>
  C8 (as amended). For every finite horizon, every cap and every sampler,
  \<open>arrival_rate = 0\<close> schedules no arrival: \<open>next_arrival\<close> is infinite, the loop ends in
  its initial state with no packet admitted, and \<open>simulate_queue\<close> returns two empty
  sequences. Both models of the simulator say so.
\<close>

theorem no_arrivals:
  "simulate_queue_x draw 0 service_time_sampler (Fin sim_time) max_packets w = Inr (([], []), w) \<and>
   sq_run_x draw 0 service_time_sampler (Fin sim_time) max_packets w = Inr (sq_init_x PInf w) \<and>
   x_next_arrival (sq_init_x PInf w) = PInf \<and>
   x_packet_count (sq_init_x PInf w) = 0 \<and>
   simulate_queue draw 0 service_time_sampler sim_time max_packets w = Inr (([], []), w) \<and>
   sq_run draw 0 service_time_sampler sim_time max_packets w = Inr (sq_init PInf w)"
proof -
  have "sq_iteration draw 0 service_time_sampler sim_time (sq_init PInf w) = Inr None"
    by (simp add: sq_iteration_def departure_event_def sq_init_def)
  then have "sq_loop draw 0 service_time_sampler sim_time max_packets (sq_init PInf w) =
               Inr (sq_init PInf w)"
    by (simp add: sq_loop.simps)
  then have run: "sq_run draw 0 service_time_sampler sim_time max_packets w = Inr (sq_init PInf w)"
    by (simp add: sq_run_def)
  have sim: "simulate_queue draw 0 service_time_sampler sim_time max_packets w = Inr (([], []), w)"
    by (simp add: run simulate_queue_def) (simp add: sq_init_def)
  have "sq_iteration_x draw 0 service_time_sampler (Fin sim_time) (sq_init_x PInf w) = Inr None"
    by (simp add: sq_iteration_x_def departure_event_x_def sq_init_x_def xlt_def)
  then have "sq_loop_x draw 0 service_time_sampler (Fin sim_time) max_packets (sq_init_x PInf w) =
               Inr (sq_init_x PInf w)"
    by (simp add: sq_loop_x.simps)
  then have runx: "sq_run_x draw 0 service_time_sampler (Fin sim_time) max_packets w =
                     Inr (sq_init_x PInf w)"
    by (simp add: sq_run_x_def)
  have simx: "simulate_queue_x draw 0 service_time_sampler (Fin sim_time) max_packets w =
                Inr (([], []), w)"
    by (simp add: runx simulate_queue_x_def) (simp add: sq_init_x_def)
  show ?thesis
    by (simp add: run sim runx simx) (simp add: sq_init_x_def)
qed

theorem no_arrivals_witness:
  "simulate_queue_x script_draw 0 script_sampler (Fin 120) default_max_packets ([], []) =
     Inr (([], []), ([], [])) \<and>
   simulate_queue script_draw 0 script_sampler 120 default_max_packets ([], []) =
     Inr (([], []), ([], []))"
  using no_arrivals [of script_draw script_sampler 120 default_max_packets "([], [])"]
  by simp

theorem no_arrivals_infinite_horizon_counterexample:
  "simulate_queue_x script_draw 0 (md1_sampler 1) PInf default_max_packets ([], []) =
     Inl ZeroDivisionError"
  by (simp add: simulate_queue_x_def sq_eval_x default_max_packets_def)

text \<open>
  C7. \<open>simulate_queue\<close> returns for every arrival rate, horizon and cap when the sampler
  returns: the loop is left after at most \<open>2 * max_packets\<close> iterations, whatever the
  rates are, because every iteration either admits a packet (and the cap bounds these)
  or takes a packet out of the waiting line or the server.
\<close>

theorem simulate_queue_terminates:
  assumes "total_sampler service_time_sampler"
  shows "(\<exists>r. simulate_queue draw arrival_rate service_time_sampler sim_time max_packets w = Inr r) \<and>
         sq_loop_fuel (2 * nat max_packets) draw arrival_rate service_time_sampler sim_time
             max_packets (sq_init na w1) =
           Some (sq_loop draw arrival_rate service_time_sampler sim_time max_packets (sq_init na w1))"
proof -
  have "sq_measure max_packets (sq_init na w1) \<le> 2 * nat max_packets"
    by (simp add: sq_measure_def sq_init_def)
  then show ?thesis
    using simulate_queue_total [OF assms] sq_loop_fuel_enough by blast
qed

theorem simulate_queue_terminates_witness:
  "total_sampler (md1_sampler (3 / 2) :: script sampler) \<and>
   (\<exists>r. simulate_queue script_draw 1 (md1_sampler (3 / 2)) 6 10 ([1, 1, 1, 10], []) = Inr r) \<and>
   sq_loop_fuel 20 script_draw 1 (md1_sampler (3 / 2)) 6 10 (sq_init (Fin 1) ([1, 1, 10], [])) =
     Some (Inr \<lparr>t = 11 / 2, next_arrival = Fin 13, queue = [], server_busy = False,
          next_departure = PInf,
          packets_completed =
            [\<lparr>arrival_time = 1, start_service = Some 1, departure_time = Some (5 / 2)\<rparr>,
             \<lparr>arrival_time = 2, start_service = Some (5 / 2), departure_time = Some 4\<rparr>,
             \<lparr>arrival_time = 3, start_service = Some 4, departure_time = Some (11 / 2)\<rparr>],
          current_serving = None, packet_count = 3, world = ([], [])\<rparr>)"
proof -
  have ts: "total_sampler (md1_sampler (3 / 2) :: script sampler)"
    by (rule total_md1_sampler)
  show ?thesis
    using ts simulate_queue_terminates [OF ts, of script_draw 1 6 10 "([1, 1, 1, 10], [])"
        "Fin 1" "([1, 1, 10], [])"]
    by (simp add: demo_loop)
qed

text \<open>
  C6. For every utilization of the sweep, with \<open>mu = bandwidth_bps / (packet_size_bytes * 8)\<close>
  and \<open>lam = rho * mu\<close>, the analytic columns of the row are \<open>1 / (mu - lam)\<close> and
  \<open>rho / (mu - lam)\<close> when \<open>lam < mu\<close> and both infinite otherwise; the rows come in the
  order of the sweep.
\<close>

theorem analytic_columns:
  assumes "run_experiments draw packet_size_bytes bandwidth_bps rho_list sim_time w = Inr (rows, w')"
    and "rhos = (case rho_list of None \<Rightarrow> default_rho_list | Some l \<Rightarrow> l)"
    and "mu = bandwidth_bps / (packet_size_bytes * 8)"
  shows "length rows = length rhos \<and>
         (\<forall>i < length rows.
            rho (rows ! i) = rhos ! i \<and>
            arrival_rate_pkts_s (rows ! i) = rhos ! i * mu \<and>
            service_rate_pkts_s (rows ! i) = mu \<and>
            analytic_mm1_total_s (rows ! i) =
              (if rhos ! i * mu < mu then Fin (1 / (mu - rhos ! i * mu)) else PInf) \<and>
            analytic_mm1_queue_s (rows ! i) =
              (if rhos ! i * mu < mu then Fin (rhos ! i / (mu - rhos ! i * mu)) else PInf))"
proof -
  have "list_all2 (row_for mu) rows rhos"
    using run_rows_Inr [OF run_experiments_cases(3) [OF assms(1)]] assms(2,3) by simp
  then show ?thesis
    by (auto simp: list_all2_conv_all_nth row_for_def)
qed

theorem analytic_columns_witness:
  "\<exists>rows w'. run_experiments script_draw 1500 10000000 (Some [1 / 2, 1]) (1 / 1000) ([], []) =
                Inr (rows, w') \<and>
     length rows = 2 \<and>
     map analytic_mm1_total_s rows = [Fin (3 / 1250), PInf] \<and>
     map analytic_mm1_queue_s rows = [Fin (3 / 2500), PInf]"
  using analytic_columns [OF sweep_run refl refl]
  by (simp add: sweep_run)

text \<open>
  C2 (as amended). The runner validates nothing. It fails, with the ZeroDivisionError of
  one of its first two divisions, exactly when \<open>packet_size_bytes\<close> or \<open>bandwidth_bps\<close>
  is zero; for every other configuration (negative bandwidth or packet size, any horizon,
  any utilization) it returns one row per utilization, in the order of the sweep.
\<close>

theorem runner_rejects_only_zero:
  "(packet_size_bytes = 0 \<or> bandwidth_bps = 0 \<longrightarrow>
      run_experiments draw packet_size_bytes bandwidth_bps rho_list sim_time w =
        Inl ZeroDivisionError) \<and>
   (packet_size_bytes \<noteq> 0 \<and> bandwidth_bps \<noteq> 0 \<longrightarrow>
      (\<exists>rows w'. run_experiments draw packet_size_bytes bandwidth_bps rho_list sim_time w =
                    Inr (rows, w') \<and>
                  map rho rows = (case rho_list of None \<Rightarrow> default_rho_list | Some l \<Rightarrow> l)))"
proof (intro conjI impI)
  assume "packet_size_bytes = 0 \<or> bandwidth_bps = 0"
  then show "run_experiments draw packet_size_bytes bandwidth_bps rho_list sim_time w =
               Inl ZeroDivisionError"
    by (auto simp: run_experiments_def Let_def)
next
  assume nz: "packet_size_bytes \<noteq> 0 \<and> bandwidth_bps \<noteq> 0"
  let ?mu = "bandwidth_bps / (packet_size_bytes * 8)"
  let ?rhos = "case rho_list of None \<Rightarrow> default_rho_list | Some l \<Rightarrow> l"
  have mu: "?mu \<noteq> 0" using nz by simp
  then have "1 / ?mu \<noteq> 0" by simp
  then have "\<exists>rows w'. run_rows draw ?mu (1 / ?mu) sim_time ?rhos w = Inr (rows, w')"
    by (rule run_rows_total)
  then obtain rows w' where rows: "run_rows draw ?mu (1 / ?mu) sim_time ?rhos w = Inr (rows, w')"
    by blast
  have "list_all2 (row_for ?mu) rows ?rhos" using rows by (rule run_rows_Inr)
  then have "list_all2 (\<lambda>r rh. rho r = rh) rows ?rhos"
    by (rule list_all2_mono) (simp add: row_for_def)
  then have "map rho rows = ?rhos"
    by (simp add: list_all2_conv_all_nth list_eq_iff_nth_eq)
  moreover have "run_experiments draw packet_size_bytes bandwidth_bps rho_list sim_time w =
                   Inr (rows, w')"
    using nz mu rows by (simp add: run_experiments_def Let_def)
  ultimately show "\<exists>rows w'. run_experiments draw packet_size_bytes bandwidth_bps rho_list sim_time w =
                    Inr (rows, w') \<and> map rho rows = ?rhos"
    by blast
qed

theorem runner_rejects_only_zero_witness:
  "run_experiments script_draw 0 10000000 (Some [1 / 2]) 120 ([], []) = Inl ZeroDivisionError \<and>
   run_experiments script_draw 1500 0 (Some [1 / 2]) 120 ([], []) = Inl ZeroDivisionError \<and>
   (\<exists>rows w'. run_experiments script_draw 1500 10000000 (Some [1 / 2, 1]) (1 / 1000) ([], []) =
                 Inr (rows, w') \<and> map rho rows = [1 / 2, 1])"
  using runner_rejects_only_zero [of 0 10000000 script_draw "Some [1 / 2]" 120 "([], [])"]
    runner_rejects_only_zero [of 1500 0 script_draw "Some [1 / 2]" 120 "([], [])"]
    runner_rejects_only_zero [of 1500 10000000 script_draw "Some [1 / 2, 1]" "1 / 1000" "([], [])"]
  by simp

theorem runner_accepts_malformed_counterexample:
  "run_experiments script_draw 1500 (- 10000000) (Some [1 / 2]) 120 ([], []) =
     Inr ([\<lparr>rho = 1 / 2, arrival_rate_pkts_s = - (1250 / 3), service_rate_pkts_s = - (2500 / 3),
             tx_delay_s = - (3 / 2500), sim_total_mm1_s = NaN, sim_queue_mm1_s = 0,
             sim_total_md1_s = NaN, sim_queue_md1_s = 0,
             analytic_mm1_total_s = PInf, analytic_mm1_queue_s = PInf\<rparr>],
          ([], [])) \<and>
   run_experiments script_draw 1500 10000000 (Some [2]) 0 ([], []) =
     Inr ([\<lparr>rho = 2, arrival_rate_pkts_s = 5000 / 3, service_rate_pkts_s = 2500 / 3,
             tx_delay_s = 3 / 2500, sim_total_mm1_s = NaN, sim_queue_mm1_s = 0,
             sim_total_md1_s = NaN, sim_queue_md1_s = 0,
             analytic_mm1_total_s = PInf, analytic_mm1_queue_s = PInf\<rparr>],
          ([], []))"
  by (simp add: runner_eval)




end
